theory Spec2Isabelle
  imports Complex_Main
begin

section \<open>Python values used by \<open>validate_GWASSS_entries.py\<close>\<close>

text \<open>
  The script is modelled function by function. A Python \<open>str\<close> is a \<open>string\<close>; a
  \<open>char\<close> stands for the code point of the same number, so the model covers the code
  points 0 to 255 (ASCII and Latin-1). An operation that can raise returns a value of
  \<open>exn + 'a\<close>, with \<open>Inl\<close> for the exception; \<open>try: ... except: ...\<close> is
  \<open>try_except\<close>.
\<close>

datatype exn = IndexError | KeyError | ValueError | OverflowError | EOFError

type_synonym 'a res = "exn + 'a"

definition bind_res :: "'a res \<Rightarrow> ('a \<Rightarrow> 'b res) \<Rightarrow> 'b res" where
  "bind_res m f = (case m of Inl e \<Rightarrow> Inl e | Inr v \<Rightarrow> f v)"

definition try_except :: "'a res \<Rightarrow> 'a res \<Rightarrow> 'a res" where
  \<comment> \<open>a bare \<open>except:\<close> catches every exception of the body; the handler may raise itself\<close>
  "try_except body handler = (case body of Inl e \<Rightarrow> handler | Inr v \<Rightarrow> Inr v)"

fun for_res :: "('a \<Rightarrow> 's \<Rightarrow> 's res) \<Rightarrow> 'a list \<Rightarrow> 's \<Rightarrow> 's res" where
  \<comment> \<open>\<open>for x in xs: body\<close> over a state, stopping at the first exception\<close>
  "for_res body [] s = Inr s"
| "for_res body (x # xs) s = bind_res (body x s) (for_res body xs)"

definition getitem :: "'a list \<Rightarrow> int \<Rightarrow> 'a res" where
  \<comment> \<open>\<open>xs[i]\<close>: an index from \<open>-len(xs)\<close> to \<open>-1\<close> counts from the end, any other
      index out of range raises\<close>
  "getitem xs i =
     (if 0 \<le> i \<and> i < int (length xs) then Inr (xs ! nat i)
      else if - int (length xs) \<le> i \<and> i < 0 then Inr (xs ! nat (int (length xs) + i))
      else Inl IndexError)"

definition setitem :: "'a list \<Rightarrow> nat \<Rightarrow> 'a \<Rightarrow> 'a list res" where
  \<comment> \<open>\<open>xs[k] = v\<close> for an index constant \<open>k \<ge> 0\<close>\<close>
  "setitem xs k v = (if k < length xs then Inr (xs[k := v]) else Inl IndexError)"

definition nth_res :: "'a list \<Rightarrow> nat \<Rightarrow> 'a res" where
  \<comment> \<open>\<open>xs[i]\<close> for a loop index \<open>i \<ge> 0\<close>\<close>
  "nth_res xs i = (if i < length xs then Inr (xs ! i) else Inl IndexError)"

definition dict_getitem :: "('k \<rightharpoonup> 'v) \<Rightarrow> 'k \<Rightarrow> 'v res" where
  "dict_getitem d k = (case d k of None \<Rightarrow> Inl KeyError | Some v \<Rightarrow> Inr v)"

subsection \<open>Strings\<close>

definition lower_char :: "char \<Rightarrow> char" where
  \<comment> \<open>\<open>str.lower\<close> on one code point below 256: A-Z and the Latin-1 capitals\<close>
  "lower_char c =
     (let n = (of_char c :: nat)
      in if (65 \<le> n \<and> n \<le> 90) \<or> (192 \<le> n \<and> n \<le> 222 \<and> n \<noteq> 215)
         then char_of (n + 32) else c)"

definition lower :: "string \<Rightarrow> string" where
  "lower s = map lower_char s"



subsection \<open>Floats\<close>

text \<open>
  A Python float is an IEEE-754 binary64 value: a finite number (kept as the rational it
  denotes; the sign of zero is not observed by this script), an infinity or a NaN.
  Comparisons are exact, and any comparison with a NaN is false.
\<close>

datatype pyfloat = Finite rat | PosInf | NegInf | NaN

fun float_le :: "pyfloat \<Rightarrow> pyfloat \<Rightarrow> bool" where
  "float_le NaN y = False"
| "float_le x NaN = False"
| "float_le NegInf y = True"
| "float_le x PosInf = True"
| "float_le (Finite a) (Finite b) = (a \<le> b)"
| "float_le x y = False"

fun float_eq :: "pyfloat \<Rightarrow> pyfloat \<Rightarrow> bool" where
  "float_eq NaN y = False"
| "float_eq x NaN = False"
| "float_eq x y = (x = y)"

fun float_lt :: "pyfloat \<Rightarrow> pyfloat \<Rightarrow> bool" where
  "float_lt NaN y = False"
| "float_lt x NaN = False"
| "float_lt PosInf y = False"
| "float_lt x NegInf = False"
| "float_lt (Finite a) (Finite b) = (a < b)"
| "float_lt x y = True"

definition pow2 :: "int \<Rightarrow> rat" where
  "pow2 e = (if 0 \<le> e then 2 ^ nat e else 1 / 2 ^ nat (- e))"

definition pow10 :: "int \<Rightarrow> rat" where
  "pow10 e = (if 0 \<le> e then 10 ^ nat e else 1 / 10 ^ nat (- e))"

function bit_length :: "int \<Rightarrow> int" where
  \<comment> \<open>\<open>int.bit_length\<close> of a number that is not negative\<close>
  "bit_length n = (if n \<le> 0 then 0 else 1 + bit_length (n div 2))"
  by pat_completeness auto
termination
  by (relation "measure nat") auto

declare bit_length.simps [simp del]

definition binade :: "rat \<Rightarrow> int" where
  \<comment> \<open>for \<open>a > 0\<close>: the \<open>e\<close> with \<open>2 ^ e \<le> a < 2 ^ (e + 1)\<close>\<close>
  "binade a =
     (let (p, q) = quotient_of a;
          e = bit_length p - bit_length q
      in if pow2 e \<le> a then e else e - 1)"

definition round_half_even :: "rat \<Rightarrow> int" where
  "round_half_even q =
     (let f = \<lfloor>q\<rfloor>; d = q - of_int f
      in if d < 1 / 2 then f else if 1 / 2 < d then f + 1
         else if even f then f else f + 1)"

definition round_binary64 :: "rat \<Rightarrow> pyfloat" where
  \<comment> \<open>round to nearest, ties to even: \<open>m\<close> is the significand of at most 53 bits in
      units of \<open>2 ^ (e - 52)\<close>, with gradual underflow below \<open>2 ^ -1022\<close>; the result
      is an infinity when it would reach \<open>2 ^ 1024\<close>\<close>
  "round_binary64 q =
     (if q = 0 then Finite 0
      else let a = \<bar>q\<bar>;
               e = max (binade a) (- 1022);
               m = round_half_even (a / pow2 (e - 52))
           in if 1023 < e \<or> (e = 1023 \<and> m = 2 ^ 53)
              then (if q < 0 then NegInf else PosInf)
              else Finite ((if q < 0 then - 1 else 1) * of_int m * pow2 (e - 52)))"

text \<open>
  Subtraction and division of two binary64 values: the exact result, rounded, with the
  infinities and NaN of IEEE 754. A zero divisor is taken as \<open>+0\<close>; numpy gives an
  infinity or a NaN there and raises nothing.
\<close>

fun float_sub :: "pyfloat \<Rightarrow> pyfloat \<Rightarrow> pyfloat" where
  "float_sub NaN y = NaN"
| "float_sub x NaN = NaN"
| "float_sub (Finite a) (Finite b) = round_binary64 (a - b)"
| "float_sub PosInf PosInf = NaN"
| "float_sub NegInf NegInf = NaN"
| "float_sub PosInf y = PosInf"
| "float_sub NegInf y = NegInf"
| "float_sub x PosInf = NegInf"
| "float_sub x NegInf = PosInf"

fun float_div :: "pyfloat \<Rightarrow> pyfloat \<Rightarrow> pyfloat" where
  "float_div NaN y = NaN"
| "float_div x NaN = NaN"
| "float_div (Finite a) (Finite b) =
     (if b = 0 then (if a = 0 then NaN else if 0 < a then PosInf else NegInf)
      else round_binary64 (a / b))"
| "float_div (Finite a) y = Finite 0"
| "float_div PosInf (Finite b) = (if 0 \<le> b then PosInf else NegInf)"
| "float_div NegInf (Finite b) = (if 0 \<le> b then NegInf else PosInf)"
| "float_div x y = NaN"

subsection \<open>\<open>float(str)\<close>\<close>

text \<open>
  CPython's \<open>float\<close> on a string: code points from 127 on are replaced (a space for the
  two Latin-1 spaces, otherwise a \<open>?\<close> that ends the string), underscores are removed
  where they stand between two digits, surrounding white space is stripped, and the rest
  must be a decimal literal, an infinity or a NaN. A decimal literal is rounded correctly;
  a magnitude too large gives an infinity, not an exception.
\<close>

definition is_digit :: "char \<Rightarrow> bool" where
  "is_digit c = (48 \<le> (of_char c :: nat) \<and> (of_char c :: nat) \<le> 57)"

definition digits_val :: "string \<Rightarrow> int" where
  "digits_val ds = foldl (\<lambda>a c. 10 * a + ((of_char c :: int) - 48)) 0 ds"

definition Py_ISSPACE :: "char \<Rightarrow> bool" where
  "Py_ISSPACE c = (let n = (of_char c :: nat) in n = 32 \<or> (9 \<le> n \<and> n \<le> 13))"

fun transform_decimal_and_space :: "string \<Rightarrow> string" where
  "transform_decimal_and_space [] = []"
| "transform_decimal_and_space (c # cs) =
     (let n = (of_char c :: nat)
      in if n < 127 then c # transform_decimal_and_space cs
         else if n = 133 \<or> n = 160 then CHR '' '' # transform_decimal_and_space cs
         else [CHR ''?''])"

fun remove_underscores :: "char \<Rightarrow> string \<Rightarrow> string option" where
  \<comment> \<open>the first argument is the previous character\<close>
  "remove_underscores prev [] = (if prev = CHR ''_'' then None else Some [])"
| "remove_underscores prev (p # ps) =
     (if p = CHR ''_'' then (if is_digit prev then remove_underscores p ps else None)
      else if prev = CHR ''_'' \<and> \<not> is_digit p then None
      else map_option ((#) p) (remove_underscores p ps))"

definition strip_space :: "string \<Rightarrow> string" where
  "strip_space s = rev (dropWhile Py_ISSPACE (rev (dropWhile Py_ISSPACE s)))"

definition parse_sign :: "string \<Rightarrow> bool \<times> string" where
  "parse_sign s =
     (case s of [] \<Rightarrow> (False, [])
      | c # cs \<Rightarrow> if c = CHR ''-'' then (True, cs)
                  else if c = CHR ''+'' then (False, cs) else (False, s))"

definition parse_exponent :: "string \<Rightarrow> int option" where
  "parse_exponent r =
     (case r of [] \<Rightarrow> Some 0
      | c # cs \<Rightarrow>
          if c = CHR ''e'' \<or> c = CHR ''E''
          then (let (eneg, ds) = parse_sign cs
                in if ds \<noteq> [] \<and> list_all is_digit ds
                   then Some (if eneg then - digits_val ds else digits_val ds)
                   else None)
          else None)"

definition parse_decimal :: "string \<Rightarrow> rat option" where
  \<comment> \<open>the exact value of \<open>[sign] digits [. digits] [e [sign] digits]\<close>, with at least one
      digit before the exponent\<close>
  "parse_decimal s =
     (let (neg, r) = parse_sign s;
          ip = takeWhile is_digit r;
          r1 = dropWhile is_digit r;
          (fp, r2) = (case r1 of [] \<Rightarrow> ([], [])
                      | c # cs \<Rightarrow> if c = CHR ''.''
                                  then (takeWhile is_digit cs, dropWhile is_digit cs)
                                  else ([], r1))
      in if ip @ fp = [] then None
         else (case parse_exponent r2 of None \<Rightarrow> None
               | Some e \<Rightarrow>
                   let m = of_int (digits_val (ip @ fp)) * pow10 (e - int (length fp))
                   in Some (if neg then - m else m)))"

definition parse_inf_or_nan :: "string \<Rightarrow> pyfloat option" where
  "parse_inf_or_nan s =
     (let (neg, r) = parse_sign s; l = lower r
      in if l = ''inf'' \<or> l = ''infinity'' then Some (if neg then NegInf else PosInf)
         else if l = ''nan'' then Some NaN else None)"

definition py_float :: "string \<Rightarrow> pyfloat res" where
  "py_float v =
     (case remove_underscores (CHR 0x00) (transform_decimal_and_space v) of
        None \<Rightarrow> Inl ValueError
      | Some d \<Rightarrow>
          let s = strip_space d
          in (case parse_decimal s of
                Some q \<Rightarrow> Inr (round_binary64 q)
              | None \<Rightarrow> (case parse_inf_or_nan s of
                            Some f \<Rightarrow> Inr f
                          | None \<Rightarrow> Inl ValueError)))"

definition py_int :: "pyfloat \<Rightarrow> int res" where
  \<comment> \<open>\<open>int(x)\<close> of a float truncates towards zero\<close>
  "py_int x =
     (case x of
        Finite q \<Rightarrow> Inr (if 0 \<le> q then \<lfloor>q\<rfloor> else \<lceil>q\<rceil>)
      | PosInf \<Rightarrow> Inl OverflowError
      | NegInf \<Rightarrow> Inl OverflowError
      | NaN \<Rightarrow> Inl ValueError)"

section \<open>Constants\<close>

definition standard_cols_i :: "string \<rightharpoonup> int" where
  "standard_cols_i =
     [''Chr'' \<mapsto> 0, ''BP'' \<mapsto> 1, ''rsID'' \<mapsto> 2, ''OA'' \<mapsto> 3, ''EA'' \<mapsto> 4, ''EAF'' \<mapsto> 5,
      ''beta'' \<mapsto> 6, ''SE'' \<mapsto> 7, ''pval'' \<mapsto> 8, ''N'' \<mapsto> 9, ''INFO'' \<mapsto> 10]"




definition GOOD_ENTRY :: int where "GOOD_ENTRY = 0"
definition MISSING_P_VALUE :: int where "MISSING_P_VALUE = 1"
definition INVALID_ENTRY :: int where "INVALID_ENTRY = 2"

definition INVALID_ROW :: nat where "INVALID_ROW = 0"
definition INVALID_RSID :: nat where "INVALID_RSID = 1"
definition INVALID_CHR :: nat where "INVALID_CHR = 2"
definition INVALID_BP :: nat where "INVALID_BP = 3"
definition INVALID_EA :: nat where "INVALID_EA = 4"
definition INVALID_OA :: nat where "INVALID_OA = 5"
definition INVALID_EAF :: nat where "INVALID_EAF = 6"
definition INVALID_SE :: nat where "INVALID_SE = 7"
definition INVALID_ES :: nat where "INVALID_ES = 8"

definition ISSUES :: "nat list" where
  "ISSUES = [INVALID_ROW, INVALID_RSID, INVALID_CHR, INVALID_BP, INVALID_EA, INVALID_OA,
             INVALID_EAF, INVALID_SE, INVALID_ES]"

definition NUCLEOTIDES :: "string list" where
  "NUCLEOTIDES = [''a'', ''t'', ''c'', ''g'']"

definition NO_NUCLEOTIDE :: string where
  "NO_NUCLEOTIDE = ''.''"

definition ALLOW_MULTI_NUCLEOTIDE_POLYMORPHISMS :: bool where
  "ALLOW_MULTI_NUCLEOTIDE_POLYMORPHISMS = True"

definition CATEGORY_CHR :: "string list" where
  "CATEGORY_CHR =
     [''1'', ''01'', ''2'', ''02'', ''3'', ''03'', ''4'', ''04'', ''5'', ''05'', ''6'', ''06'',
      ''7'', ''07'', ''8'', ''08'', ''9'', ''09'',
      ''10'', ''11'', ''12'', ''13'', ''14'', ''15'', ''16'', ''17'', ''18'', ''19'', ''20'',
      ''21'', ''22'', ''23'', ''X'', ''x'', ''Y'', ''y'', ''M'', ''m'']"

subsection \<open>Bar widths\<close>

text \<open>
  The widths of the bars, for a width rule and a list of ticks. \<open>np.log10\<close> is a function
  of the C library, so the model takes it as a parameter; \<open>1.\<close> and \<open>2.\<close> are exact, and
  \<open>1e-2\<close> is the binary64 value nearest to \<open>1/100\<close>.
\<close>

definition bars_widths :: "(pyfloat \<Rightarrow> pyfloat) \<Rightarrow> string \<Rightarrow> pyfloat list \<Rightarrow> pyfloat list res" where
  "bars_widths np_log10 ticks_width_rule ticks =
     (let bars_widths = [Finite 1]
      in if ticks_width_rule = ''even''
         then Inr (foldl (\<lambda>bars_widths i. bars_widths @ [Finite 1]) bars_widths
                    [1 ..< length ticks])
         else if ticks_width_rule = ''log10''
         then (let unit_width = float_sub (np_log10 (Finite 1)) (np_log10 (round_binary64 (1 / 100)))
               in Inr (foldl (\<lambda>bars_widths i.
                         if float_eq (ticks ! (i - 1)) (Finite 0) then bars_widths @ [Finite 2]
                         else bars_widths @
                           [float_div (float_sub (np_log10 (ticks ! i)) (np_log10 (ticks ! (i - 1))))
                              unit_width])
                       bars_widths [1 ..< length ticks]))
         else Inl ValueError)"

section \<open>Functions\<close>

definition is_null :: "string \<Rightarrow> bool" where
  "is_null val = (lower val \<in> set ['''', '' '', ''.'', ''-'', ''na'', ''nan''])"

definition re_match_rs_digits :: "string \<Rightarrow> bool" where
  \<comment> \<open>\<open>re.match("^rs\d+$", s)\<close> finds a match; \<open>$\<close> also matches before a final newline\<close>
  "re_match_rs_digits s =
     (take 2 s = ''rs'' \<and>
      (let ds = takeWhile is_digit (drop 2 s); rest = dropWhile is_digit (drop 2 s)
       in ds \<noteq> [] \<and> (rest = [] \<or> rest = [CHR 0x0A])))"

subsection \<open>\<open>check_row\<close>\<close>

definition column :: "(string \<rightharpoonup> int) \<Rightarrow> string list \<Rightarrow> string \<Rightarrow> string res" where
  \<comment> \<open>\<open>line_cols[cols_i[name]]\<close>\<close>
  "column cols_i line_cols name = bind_res (dict_getitem cols_i name) (getitem line_cols)"

definition in_unit_interval :: "pyfloat \<Rightarrow> bool" where
  \<comment> \<open>\<open>0 <= x <= 1\<close>\<close>
  "in_unit_interval x = (float_le (Finite 0) x \<and> float_le x (Finite 1))"

definition read_pval :: "(string \<rightharpoonup> int) \<Rightarrow> string list \<Rightarrow> pyfloat option res" where
  \<comment> \<open>the body of the first \<open>try\<close>: \<open>Inr None\<close> is its \<open>return\<close>, \<open>Inr (Some p)\<close> falls
      through with \<open>pval = p\<close>\<close>
  "read_pval cols_i line_cols =
     bind_res (column cols_i line_cols ''pval'') (\<lambda>pval.
       if is_null pval then Inr None
       else bind_res (py_float pval) (\<lambda>x.
         if \<not> in_unit_interval x then Inr None
         else bind_res (py_float pval) (\<lambda>p. Inr (Some p))))"

definition read_columns ::
  "(string \<rightharpoonup> int) \<Rightarrow> string list \<Rightarrow>
   (string \<times> string \<times> string \<times> string \<times> string \<times> string \<times> string \<times> string) res" where
  \<comment> \<open>the body of the second \<open>try\<close>\<close>
  "read_columns cols_i line_cols =
     bind_res (column cols_i line_cols ''rsID'') (\<lambda>rsid.
     bind_res (column cols_i line_cols ''Chr'') (\<lambda>chrom.
     bind_res (column cols_i line_cols ''BP'') (\<lambda>bp.
     bind_res (column cols_i line_cols ''EA'') (\<lambda>ea.
     bind_res (column cols_i line_cols ''OA'') (\<lambda>oa.
     bind_res (column cols_i line_cols ''EAF'') (\<lambda>af.
     bind_res (column cols_i line_cols ''SE'') (\<lambda>se.
     bind_res (column cols_i line_cols ''beta'') (\<lambda>es.
       Inr (rsid, chrom, bp, ea, oa, af, se, es)))))))))"

text \<open>
  Each of the eight checks is a \<open>try\<close> block that may set one flag of \<open>issues\<close>, with a
  handler that sets the same flag. No block changes \<open>issues\<close> before an operation that
  can raise, so the handler starts from the list the block started from.
\<close>

definition check_rsid :: "string \<Rightarrow> bool list \<Rightarrow> bool list res" where
  "check_rsid rsid issues =
     try_except
       (if \<not> re_match_rs_digits rsid then setitem issues INVALID_RSID True else Inr issues)
       (setitem issues INVALID_RSID True)"

definition check_chrom :: "string \<Rightarrow> bool list \<Rightarrow> bool list res" where
  "check_chrom chrom issues =
     try_except
       (if chrom \<notin> set CATEGORY_CHR \<and> drop 3 chrom \<notin> set CATEGORY_CHR
        then setitem issues INVALID_CHR True else Inr issues)
       (setitem issues INVALID_CHR True)"

definition check_bp :: "string \<Rightarrow> bool list \<Rightarrow> bool list res" where
  "check_bp bp issues =
     try_except
       (bind_res (py_float bp) (\<lambda>x.
        bind_res (py_int x) (\<lambda>bp.
          if bp < 0 then setitem issues INVALID_BP True else Inr issues)))
       (setitem issues INVALID_BP True)"

definition check_allele :: "nat \<Rightarrow> string \<Rightarrow> bool list \<Rightarrow> bool list res" where
  \<comment> \<open>the block for the effect allele (\<open>k = INVALID_EA\<close>) and, word for word, the one for
      the other allele (\<open>k = INVALID_OA\<close>)\<close>
  "check_allele k a issues =
     try_except
       (if a = '''' then setitem issues k True
        else if a = NO_NUCLEOTIDE then setitem issues k False
        else if ALLOW_MULTI_NUCLEOTIDE_POLYMORPHISMS
        then for_res (\<lambda>char is. if [char] \<notin> set NUCLEOTIDES then setitem is k True else Inr is)
               (lower a) issues
        else (if lower a \<notin> set NUCLEOTIDES then setitem issues k True else Inr issues))
       (setitem issues k True)"

definition check_eaf :: "string \<Rightarrow> bool list \<Rightarrow> bool list res" where
  "check_eaf af issues =
     try_except
       (bind_res (py_float af) (\<lambda>x.
          if \<not> in_unit_interval x then setitem issues INVALID_EAF True else Inr issues))
       (setitem issues INVALID_EAF True)"

definition check_float_field :: "nat \<Rightarrow> string \<Rightarrow> bool list \<Rightarrow> bool list res" where
  \<comment> \<open>the block for the standard error (\<open>k = INVALID_SE\<close>) and the one for the effect size
      (\<open>k = INVALID_ES\<close>)\<close>
  "check_float_field k v issues =
     try_except
       (bind_res (py_float v) (\<lambda>x.
          if is_null v then setitem issues k True else Inr issues))
       (setitem issues k True)"

definition check_fields ::
  "string \<times> string \<times> string \<times> string \<times> string \<times> string \<times> string \<times> string \<Rightarrow>
   bool list \<Rightarrow> bool list res" where
  "check_fields fields issues =
     (case fields of (rsid, chrom, bp, ea, oa, af, se, es) \<Rightarrow>
        bind_res (check_rsid rsid issues) (\<lambda>issues.
        bind_res (check_chrom chrom issues) (\<lambda>issues.
        bind_res (check_bp bp issues) (\<lambda>issues.
        bind_res (check_allele INVALID_EA ea issues) (\<lambda>issues.
        bind_res (check_allele INVALID_OA oa issues) (\<lambda>issues.
        bind_res (check_eaf af issues) (\<lambda>issues.
        bind_res (check_float_field INVALID_SE se issues) (\<lambda>issues.
        check_float_field INVALID_ES es issues))))))))"

definition check_row ::
  "(string \<rightharpoonup> int) \<Rightarrow> string list \<Rightarrow> (pyfloat option \<times> int \<times> bool list) res" where
  "check_row cols_i line_cols =
     (let issues = replicate (length ISSUES) False
      in case try_except (read_pval cols_i line_cols) (Inr None) of
           Inl e \<Rightarrow> Inl e
         | Inr None \<Rightarrow> Inr (None, MISSING_P_VALUE, issues)
         | Inr (Some pval) \<Rightarrow>
             (case read_columns cols_i line_cols of
                Inl e \<Rightarrow>
                  bind_res (setitem issues INVALID_ROW True) (\<lambda>issues.
                    Inr (Some pval, INVALID_ENTRY, issues))
              | Inr fields \<Rightarrow>
                  bind_res (check_fields fields issues) (\<lambda>issues.
                    if list_ex id issues then Inr (Some pval, INVALID_ENTRY, issues)
                    else Inr (Some pval, GOOD_ENTRY, issues))))"

section \<open>Step 1: the classification pass\<close>

text \<open>
  The three arrays come from \<open>np.empty\<close>, so their first content is whatever the memory
  held: the model takes it from a parameter. The file is the list of its lines not read
  yet, each with its final newline if it has one; \<open>readline\<close> at the end of the file
  returns the empty string and raises nothing.
\<close>

record arrays =
  SNPs_pval :: "pyfloat list"
  SNPs_report :: "int list"
  SNPs_issues :: "bool list list"













section \<open>Step 2: bucket counts\<close>

record counts =
  missing_pval_bins :: "int list"
  good_entry_bins :: "int list"
  invalid_entry_bins :: "int list"
  invalid_entry_bins_reason_bins :: "int list list"

definition init_counts :: "pyfloat list \<Rightarrow> counts" where
  "init_counts ticks =
     \<lparr>missing_pval_bins = replicate (length ticks) 0,
      good_entry_bins = replicate (length ticks) 0,
      invalid_entry_bins = replicate (length ticks) 0,
      invalid_entry_bins_reason_bins =
        replicate (length ticks) (replicate (Max (set ISSUES) + 1) 0)\<rparr>"

definition increment :: "int list \<Rightarrow> nat \<Rightarrow> int list res" where
  \<comment> \<open>\<open>xs[j] += 1\<close>\<close>
  "increment xs j = bind_res (nth_res xs j) (\<lambda>c. Inr (xs[j := c + 1]))"

definition add_row_flags :: "int list \<Rightarrow> bool list \<Rightarrow> int list" where
  \<comment> \<open>a row of counts plus a row of flags of the same length: a flag that is set adds one\<close>
  "add_row_flags row flags = map2 (\<lambda>c b. c + (if b then 1 else 0)) row flags"

definition add_flags :: "int list list \<Rightarrow> nat \<Rightarrow> bool list \<Rightarrow> int list list res" where
  \<comment> \<open>\<open>m[j] += flags\<close> on a row of the count matrix\<close>
  "add_flags m j flags =
     bind_res (nth_res m j) (\<lambda>row.
       if length flags \<noteq> length row then Inl ValueError
       else Inr (m[j := add_row_flags row flags]))"

function find_bin :: "arrays \<Rightarrow> nat \<Rightarrow> pyfloat list \<Rightarrow> nat \<Rightarrow> nat option res" where
  \<comment> \<open>\<open>for j in range(j, len(ticks))\<close> up to its \<open>break\<close>: the \<open>j\<close> at which it breaks\<close>
  "find_bin a line_i ticks j =
     (if j < length ticks
      then bind_res (nth_res (SNPs_pval a) line_i) (\<lambda>p.
             if float_le p (ticks ! j) then Inr (Some j)
             else find_bin a line_i ticks (Suc j))
      else Inr None)"
  by pat_completeness auto
termination
  by (relation "measure (\<lambda>(a, line_i, ticks, j). length ticks - j)") auto

declare find_bin.simps [simp del]

definition count_row :: "pyfloat list \<Rightarrow> arrays \<Rightarrow> nat \<Rightarrow> counts \<Rightarrow> counts res" where
  \<comment> \<open>the body of the loop over \<open>line_i\<close>\<close>
  "count_row ticks a line_i c =
     bind_res (nth_res (SNPs_report a) line_i) (\<lambda>report.
       if report = MISSING_P_VALUE
       then bind_res (increment (missing_pval_bins c) 0) (\<lambda>bins.
              Inr (c\<lparr>missing_pval_bins := bins\<rparr>))
       else if report = GOOD_ENTRY
       then bind_res (find_bin a line_i ticks 1) (\<lambda>found.
              case found of
                None \<Rightarrow> Inr c
              | Some j \<Rightarrow>
                  bind_res (increment (good_entry_bins c) j) (\<lambda>bins.
                    Inr (c\<lparr>good_entry_bins := bins\<rparr>)))
       else if report = INVALID_ENTRY
       then bind_res (find_bin a line_i ticks 1) (\<lambda>found.
              case found of
                None \<Rightarrow> Inr c
              | Some j \<Rightarrow>
                  bind_res (increment (invalid_entry_bins c) j) (\<lambda>bins.
                  bind_res (nth_res (SNPs_issues a) line_i) (\<lambda>flags.
                  bind_res (add_flags (invalid_entry_bins_reason_bins c) j flags) (\<lambda>m.
                    Inr (c\<lparr>invalid_entry_bins := bins,
                           invalid_entry_bins_reason_bins := m\<rparr>)))))
       else Inr c)"

definition STEP2 :: "pyfloat list \<Rightarrow> arrays \<Rightarrow> counts res" where
  "STEP2 ticks a =
     for_res (count_row ticks a) [0..<length (SNPs_report a)] (init_counts ticks)"

section \<open>The acceptance condition of the chromosome check, as the specification words it\<close>

text \<open>
  The specification accepts a chromosome field that is in the category list, or that is
  in it once a prefix \<open>chr\<close>, in any letter case, is taken off. This definition follows
  those words; \<open>check_chrom\<close> above follows the code.
\<close>

definition claimed_chr_ok :: "string \<Rightarrow> bool" where
  "claimed_chr_ok chrom =
     (chrom \<in> set CATEGORY_CHR \<or>
      (lower (take 3 chrom) = ''chr'' \<and> drop 3 chrom \<in> set CATEGORY_CHR))"

section \<open>Notions used in the statements\<close>

text \<open>
  The three arrays of step 1 are allocated with one length, the third with a row of nine
  flags for each slot; the four count structures of step 2 are allocated with one entry
  for each tick, the matrix with a row of nine counts for each.
\<close>

definition arrays_ok :: "arrays \<Rightarrow> bool" where
  "arrays_ok a =
     (length (SNPs_pval a) = length (SNPs_report a) \<and>
      length (SNPs_issues a) = length (SNPs_report a) \<and>
      (\<forall>flags \<in> set (SNPs_issues a). length flags = 9))"

definition counts_ok :: "nat \<Rightarrow> counts \<Rightarrow> bool" where
  "counts_ok n c =
     (length (missing_pval_bins c) = n \<and> length (good_entry_bins c) = n \<and>
      length (invalid_entry_bins c) = n \<and> length (invalid_entry_bins_reason_bins c) = n \<and>
      (\<forall>row \<in> set (invalid_entry_bins_reason_bins c). length row = 9))"

text \<open>
  Bucket \<open>j\<close> is the first one, scanning upward from index 1, whose tick is not below
  \<open>p\<close>.
\<close>

definition first_bin :: "pyfloat \<Rightarrow> pyfloat list \<Rightarrow> nat \<Rightarrow> bool" where
  "first_bin p ticks j =
     (1 \<le> j \<and> j < length ticks \<and> float_le p (ticks ! j) \<and>
      (\<forall>k. 1 \<le> k \<and> k < j \<longrightarrow> \<not> float_le p (ticks ! k)))"

text \<open>
  The rows the counts hold: the good and the invalid ones of all buckets, and the missing
  ones of bucket 0.
\<close>

definition counted :: "counts \<Rightarrow> int" where
  "counted c = sum_list (good_entry_bins c) + sum_list (invalid_entry_bins c) +
     missing_pval_bins c ! 0"

definition in_some_bin :: "pyfloat list \<Rightarrow> arrays \<Rightarrow> nat \<Rightarrow> bool" where
  "in_some_bin ticks a line_i =
     (SNPs_report a ! line_i = MISSING_P_VALUE \<or>
      ((SNPs_report a ! line_i = GOOD_ENTRY \<or> SNPs_report a ! line_i = INVALID_ENTRY) \<and>
       (\<exists>j<length ticks. 1 \<le> j \<and> float_le (SNPs_pval a ! line_i) (ticks ! j))))"

definition bin0_clean :: "nat \<Rightarrow> counts \<Rightarrow> bool" where
  "bin0_clean n c =
     (good_entry_bins c ! 0 = 0 \<and> invalid_entry_bins c ! 0 = 0 \<and>
      invalid_entry_bins_reason_bins c ! 0 = replicate 9 0 \<and>
      (\<forall>j. 1 \<le> j \<and> j < n \<longrightarrow> missing_pval_bins c ! j = 0))"





text \<open>
  What makes a row malformed, said of the field values themselves. A row has a usable
  p-value \<open>p\<close> when its \<open>pval\<close> column can be read, is no null marker and is the text of a
  number \<open>p\<close> with \<open>0 \<le> p \<le> 1\<close>. The other predicates say when one field value is
  malformed: an rsID that is not \<open>rs\<close> and digits; a chromosome that is no member of the
  category set, also with three characters removed; a base pair that is no number, has no
  integer part or is negative; an allele that is empty, or is not \<open>.\<close> and has a letter
  other than \<open>a\<close>, \<open>t\<close>, \<open>c\<close>, \<open>g\<close>; a frequency that is no number or lies outside
  \<open>[0, 1]\<close>; a standard error or effect size that is no number or is a null marker.
\<close>

definition usable_pval :: "(string \<rightharpoonup> int) \<Rightarrow> string list \<Rightarrow> pyfloat \<Rightarrow> bool" where
  "usable_pval cols_i line_cols p =
     (\<exists>pval. column cols_i line_cols ''pval'' = Inr pval \<and> \<not> is_null pval \<and>
        py_float pval = Inr p \<and> in_unit_interval p)"

definition bad_rsid :: "string \<Rightarrow> bool" where
  "bad_rsid rsid = (\<not> re_match_rs_digits rsid)"

definition bad_chrom :: "string \<Rightarrow> bool" where
  "bad_chrom chrom = (chrom \<notin> set CATEGORY_CHR \<and> drop 3 chrom \<notin> set CATEGORY_CHR)"

definition bad_bp :: "string \<Rightarrow> bool" where
  "bad_bp bp =
     (case py_float bp of Inl e \<Rightarrow> True
      | Inr x \<Rightarrow> (case py_int x of Inl e \<Rightarrow> True | Inr n \<Rightarrow> n < 0))"

definition bad_allele :: "string \<Rightarrow> bool" where
  "bad_allele a = (a = '''' \<or> (a \<noteq> ''.'' \<and> (\<exists>c \<in> set (lower a). c \<notin> set ''atcg'')))"

definition bad_eaf :: "string \<Rightarrow> bool" where
  "bad_eaf af = (case py_float af of Inl e \<Rightarrow> True | Inr x \<Rightarrow> \<not> in_unit_interval x)"

definition bad_float :: "string \<Rightarrow> bool" where
  "bad_float v = (case py_float v of Inl e \<Rightarrow> True | Inr x \<Rightarrow> is_null v)"

section \<open>Properties of \<open>check_row\<close>\<close>

lemmas issue_index_defs =
  INVALID_ROW_def INVALID_RSID_def INVALID_CHR_def INVALID_BP_def INVALID_EA_def
  INVALID_OA_def INVALID_EAF_def INVALID_SE_def INVALID_ES_def

lemma length_ISSUES: "length ISSUES = 9"
  by (simp add: ISSUES_def)

lemma setitem_Inr: "k < length xs \<Longrightarrow> setitem xs k v = Inr (xs[k := v])"
  by (simp add: setitem_def)

lemma for_res_flag:
  "k < length is \<Longrightarrow>
   \<exists>b. for_res (\<lambda>x is. if P x then setitem is k True else Inr is) xs is = Inr (is[k := b])"
proof (induction xs arbitrary: "is")
  case Nil
  have "is = is[k := is ! k]" by simp
  then show ?case by (metis for_res.simps(1))
next
  case (Cons x xs)
  show ?case
  proof (cases "P x")
    case True
    from Cons.IH [of "is[k := True]"] Cons.prems
    obtain b where "for_res (\<lambda>x is. if P x then setitem is k True else Inr is) xs (is[k := True])
       = Inr (is[k := True, k := b])" by auto
    with True Cons.prems show ?thesis
      by (auto simp: bind_res_def setitem_Inr)
  next
    case False
    with Cons.IH [of "is"] Cons.prems show ?thesis
      by (auto simp: bind_res_def)
  qed
qed

lemma check_rsid_flag:
  "INVALID_RSID < length is \<Longrightarrow> \<exists>b. check_rsid v is = Inr (is[INVALID_RSID := b])"
  by (auto simp: check_rsid_def try_except_def setitem_Inr intro: exI [of _ "is ! INVALID_RSID"])

lemma check_chrom_eq:
  "INVALID_CHR < length is \<Longrightarrow>
   check_chrom v is =
     Inr (is[INVALID_CHR := (v \<notin> set CATEGORY_CHR \<and> drop 3 v \<notin> set CATEGORY_CHR) \<or> is ! INVALID_CHR])"
  by (auto simp: check_chrom_def try_except_def setitem_Inr)

lemma try_except_flag:
  assumes "k < length is" and "\<And>r. body = Inr r \<Longrightarrow> \<exists>b. r = is[k := b]"
  shows "\<exists>b. try_except body (setitem is k True) = Inr (is[k := b])"
  using assms by (cases body) (auto simp: try_except_def setitem_Inr)

lemma check_bp_flag:
  "INVALID_BP < length is \<Longrightarrow> \<exists>b. check_bp v is = Inr (is[INVALID_BP := b])"
  unfolding check_bp_def
  apply (rule try_except_flag)
   apply assumption
  apply (auto simp: bind_res_def setitem_Inr split: sum.splits if_splits)
  apply (metis list_update_id)
  done

lemma check_allele_flag:
  "k < length is \<Longrightarrow> \<exists>b. check_allele k v is = Inr (is[k := b])"
  unfolding check_allele_def
  apply (rule try_except_flag)
   apply assumption
  using for_res_flag [of k "is" "\<lambda>char. [char] \<notin> set NUCLEOTIDES" "lower v"]
  apply (auto simp: setitem_Inr split: if_splits)
  apply (metis list_update_id)
  done

lemma check_eaf_flag:
  "INVALID_EAF < length is \<Longrightarrow> \<exists>b. check_eaf v is = Inr (is[INVALID_EAF := b])"
  unfolding check_eaf_def
  apply (rule try_except_flag)
   apply assumption
  apply (auto simp: bind_res_def setitem_Inr split: sum.splits if_splits)
  apply (metis list_update_id)
  done

lemma check_float_field_flag:
  "k < length is \<Longrightarrow> \<exists>b. check_float_field k v is = Inr (is[k := b])"
  unfolding check_float_field_def
  apply (rule try_except_flag)
   apply assumption
  apply (auto simp: bind_res_def setitem_Inr split: sum.splits if_splits)
  apply (metis list_update_id)
  done

lemma check_fields_flags:
  assumes "length is = 9"
  shows "\<exists>b1 b3 b4 b5 b6 b7 b8.
    check_fields (rsid, chrom, bp, ea, oa, af, se, es) is =
      Inr (is[INVALID_RSID := b1,
              INVALID_CHR := (chrom \<notin> set CATEGORY_CHR \<and> drop 3 chrom \<notin> set CATEGORY_CHR)
                              \<or> is ! INVALID_CHR,
              INVALID_BP := b3, INVALID_EA := b4, INVALID_OA := b5, INVALID_EAF := b6,
              INVALID_SE := b7, INVALID_ES := b8])"
proof -
  let ?c = "(chrom \<notin> set CATEGORY_CHR \<and> drop 3 chrom \<notin> set CATEGORY_CHR) \<or> is ! INVALID_CHR"
  from assms obtain b1 where 1: "check_rsid rsid is = Inr (is[INVALID_RSID := b1])"
    using check_rsid_flag [of "is" rsid] by (auto simp: issue_index_defs)
  let ?i1 = "is[INVALID_RSID := b1]"
  have 2: "check_chrom chrom ?i1 = Inr (?i1[INVALID_CHR := ?c])"
    using assms check_chrom_eq [of ?i1 chrom] by (simp add: issue_index_defs)
  let ?i2 = "?i1[INVALID_CHR := ?c]"
  from assms obtain b3 where 3: "check_bp bp ?i2 = Inr (?i2[INVALID_BP := b3])"
    using check_bp_flag [of ?i2 bp] by (auto simp: issue_index_defs)
  let ?i3 = "?i2[INVALID_BP := b3]"
  from assms obtain b4 where 4: "check_allele INVALID_EA ea ?i3 = Inr (?i3[INVALID_EA := b4])"
    using check_allele_flag [of INVALID_EA ?i3 ea] by (auto simp: issue_index_defs)
  let ?i4 = "?i3[INVALID_EA := b4]"
  from assms obtain b5 where 5: "check_allele INVALID_OA oa ?i4 = Inr (?i4[INVALID_OA := b5])"
    using check_allele_flag [of INVALID_OA ?i4 oa] by (auto simp: issue_index_defs)
  let ?i5 = "?i4[INVALID_OA := b5]"
  from assms obtain b6 where 6: "check_eaf af ?i5 = Inr (?i5[INVALID_EAF := b6])"
    using check_eaf_flag [of ?i5 af] by (auto simp: issue_index_defs)
  let ?i6 = "?i5[INVALID_EAF := b6]"
  from assms obtain b7 where 7: "check_float_field INVALID_SE se ?i6 = Inr (?i6[INVALID_SE := b7])"
    using check_float_field_flag [of INVALID_SE ?i6 se] by (auto simp: issue_index_defs)
  let ?i7 = "?i6[INVALID_SE := b7]"
  from assms obtain b8 where 8: "check_float_field INVALID_ES es ?i7 = Inr (?i7[INVALID_ES := b8])"
    using check_float_field_flag [of INVALID_ES ?i7 es] by (auto simp: issue_index_defs)
  have "check_fields (rsid, chrom, bp, ea, oa, af, se, es) is = Inr (?i7[INVALID_ES := b8])"
    by (simp add: check_fields_def bind_res_def 1 2 3 4 5 6 7 8)
  then show ?thesis by blast
qed

lemma check_fields_Inr:
  assumes "length is = 9"
  shows "\<exists>is'. check_fields flds is = Inr is' \<and> length is' = 9 \<and>
           is' ! INVALID_ROW = is ! INVALID_ROW \<and>
           is' ! INVALID_CHR = ((fst (snd flds) \<notin> set CATEGORY_CHR \<and>
                                 drop 3 (fst (snd flds)) \<notin> set CATEGORY_CHR) \<or> is ! INVALID_CHR)"
proof -
  obtain rsid chrom bp ea oa af se es where f: "flds = (rsid, chrom, bp, ea, oa, af, se, es)"
    by (cases flds) auto
  from check_fields_flags [OF assms, of rsid chrom bp ea oa af se es] assms
  show ?thesis unfolding f
    by (auto simp: issue_index_defs)
qed

text \<open>The three ways out of \<open>check_row\<close>.\<close>

lemma check_row_missing:
  "try_except (read_pval cols_i line_cols) (Inr None) = Inr None \<Longrightarrow>
   check_row cols_i line_cols = Inr (None, MISSING_P_VALUE, replicate 9 False)"
  by (simp add: check_row_def length_ISSUES)

lemma read_pval_cases:
  "try_except (read_pval cols_i line_cols) (Inr None) = Inr None \<or>
   (\<exists>p. read_pval cols_i line_cols = Inr (Some p))"
  by (cases "read_pval cols_i line_cols") (auto simp: try_except_def)

lemma check_row_malformed:
  "read_pval cols_i line_cols = Inr (Some p) \<Longrightarrow> read_columns cols_i line_cols = Inl e \<Longrightarrow>
   check_row cols_i line_cols =
     Inr (Some p, INVALID_ENTRY, (replicate 9 False)[INVALID_ROW := True])"
  by (simp add: check_row_def length_ISSUES try_except_def bind_res_def setitem_def INVALID_ROW_def)

lemma check_row_checked:
  assumes "read_pval cols_i line_cols = Inr (Some p)"
    and "read_columns cols_i line_cols = Inr flds"
  shows "\<exists>issues. check_fields flds (replicate 9 False) = Inr issues \<and> length issues = 9 \<and>
           check_row cols_i line_cols =
             Inr (Some p, if list_ex id issues then INVALID_ENTRY else GOOD_ENTRY, issues)"
proof -
  from check_fields_Inr [of "replicate 9 False" flds]
  obtain issues where "check_fields flds (replicate 9 False) = Inr issues" "length issues = 9"
    by auto
  with assms show ?thesis
    by (simp add: check_row_def length_ISSUES try_except_def bind_res_def)
qed

lemma check_row_total:
  "\<exists>pval verdict issues. check_row cols_i line_cols = Inr (pval, verdict, issues)"
proof -
  consider "try_except (read_pval cols_i line_cols) (Inr None) = Inr None"
    | p where "read_pval cols_i line_cols = Inr (Some p)"
    using read_pval_cases by blast
  then show ?thesis
  proof cases
    case 1
    then show ?thesis by (simp add: check_row_missing)
  next
    case (2 p)
    show ?thesis
    proof (cases "read_columns cols_i line_cols")
      case (Inl e)
      with 2 show ?thesis by (simp add: check_row_malformed)
    next
      case (Inr flds)
      from check_row_checked [OF 2 Inr] show ?thesis by auto
    qed
  qed
qed

lemma column_pval_unusable:
  assumes "cols_i ''pval'' = None \<or>
     (\<exists>i. cols_i ''pval'' = Some i \<and>
        (\<not> (- int (length line_cols) \<le> i \<and> i < int (length line_cols)) \<or>
         (\<exists>pval. getitem line_cols i = Inr pval \<and>
            (is_null pval \<or> (\<exists>e. py_float pval = Inl e) \<or>
             (\<exists>x. py_float pval = Inr x \<and> \<not> in_unit_interval x)))))"
  shows "try_except (read_pval cols_i line_cols) (Inr None) = Inr None"
  using assms
  by (auto simp: read_pval_def column_def dict_getitem_def bind_res_def try_except_def
        getitem_def Let_def split: if_splits)


text \<open>
  The flags after the eight checks, and the two readers of the columns, in terms of the
  field values.
\<close>

lemma for_res_flag_exact:
  "k < length is \<Longrightarrow>
   for_res (\<lambda>x is. if P x then setitem is k True else Inr is) xs is =
     Inr (if \<exists>x \<in> set xs. P x then is[k := True] else is)"
proof (induction xs arbitrary: "is")
  case Nil
  then show ?case by simp
next
  case (Cons x xs)
  from Cons.IH [of "is"] Cons.IH [of "is[k := True]"] Cons.prems show ?case
    by (simp add: bind_res_def setitem_Inr)
qed

lemma flag_update:
  "\<not> is ! k \<Longrightarrow> (if b then is[k := True] else is) = is[k := b]"
  by (cases b) (simp_all, metis list_update_id)

lemma check_rsid_exact:
  "INVALID_RSID < length is \<Longrightarrow> \<not> is ! INVALID_RSID \<Longrightarrow>
   check_rsid v is = Inr (is[INVALID_RSID := bad_rsid v])"
  using flag_update [of "is" INVALID_RSID "bad_rsid v"]
  by (auto simp: check_rsid_def try_except_def setitem_Inr bad_rsid_def)

lemma check_chrom_exact:
  "INVALID_CHR < length is \<Longrightarrow> \<not> is ! INVALID_CHR \<Longrightarrow>
   check_chrom v is = Inr (is[INVALID_CHR := bad_chrom v])"
  by (simp add: check_chrom_eq bad_chrom_def)

lemma check_bp_exact:
  "INVALID_BP < length is \<Longrightarrow> \<not> is ! INVALID_BP \<Longrightarrow>
   check_bp v is = Inr (is[INVALID_BP := bad_bp v])"
  using flag_update [of "is" INVALID_BP "bad_bp v"]
  by (auto simp: check_bp_def try_except_def bind_res_def setitem_Inr bad_bp_def
      split: sum.splits)

lemma check_allele_exact:
  assumes "k < length is" and "\<not> is ! k"
  shows "check_allele k v is = Inr (is[k := bad_allele v])"
proof -
  consider "v = []" | "v = ''.''" | "v \<noteq> []" "v \<noteq> ''.''" by blast
  then show ?thesis
  proof cases
    case 1
    with assms show ?thesis
      by (simp add: check_allele_def try_except_def setitem_Inr bad_allele_def)
  next
    case 2
    with assms show ?thesis
      by (simp add: check_allele_def try_except_def setitem_Inr bad_allele_def NO_NUCLEOTIDE_def)
  next
    case 3
    have n: "([c] \<notin> set NUCLEOTIDES) = (c \<notin> set ''atcg'')" for c
      by (simp add: NUCLEOTIDES_def)
    from 3 have b: "bad_allele v = (\<exists>c \<in> set (lower v). c \<notin> set ''atcg'')"
      by (simp add: bad_allele_def)
    have "for_res (\<lambda>char is. if [char] \<notin> set NUCLEOTIDES then setitem is k True else Inr is)
        (lower v) is = Inr (is[k := bad_allele v])"
      unfolding for_res_flag_exact [OF assms(1)] n b
      using flag_update [OF assms(2)] by simp
    with 3 show ?thesis
      by (simp add: check_allele_def try_except_def NO_NUCLEOTIDE_def
          ALLOW_MULTI_NUCLEOTIDE_POLYMORPHISMS_def)
  qed
qed

lemma check_eaf_exact:
  "INVALID_EAF < length is \<Longrightarrow> \<not> is ! INVALID_EAF \<Longrightarrow>
   check_eaf v is = Inr (is[INVALID_EAF := bad_eaf v])"
  using flag_update [of "is" INVALID_EAF "bad_eaf v"]
  by (auto simp: check_eaf_def try_except_def bind_res_def setitem_Inr bad_eaf_def
      split: sum.splits)

lemma check_float_field_exact:
  "k < length is \<Longrightarrow> \<not> is ! k \<Longrightarrow>
   check_float_field k v is = Inr (is[k := bad_float v])"
  using flag_update [of "is" k "bad_float v"]
  by (auto simp: check_float_field_def try_except_def bind_res_def setitem_Inr bad_float_def
      split: sum.splits)

lemma nine_False:
  "replicate 9 False = [False, False, False, False, False, False, False, False, False]"
  by (simp add: numeral_eq_Suc)

lemma check_fields_exact:
  "check_fields (rsid, chrom, bp, ea, oa, af, se, es) (replicate 9 False) =
     Inr [False, bad_rsid rsid, bad_chrom chrom, bad_bp bp, bad_allele ea, bad_allele oa,
          bad_eaf af, bad_float se, bad_float es]"
  unfolding check_fields_def nine_False
  by (simp add: bind_res_def check_rsid_exact check_chrom_exact check_bp_exact
      check_allele_exact check_eaf_exact check_float_field_exact issue_index_defs)

lemma read_pval_usable:
  "usable_pval cols_i line_cols p \<Longrightarrow> read_pval cols_i line_cols = Inr (Some p)"
  by (auto simp: usable_pval_def read_pval_def bind_res_def)

lemma read_pval_unusable:
  "\<forall>p. \<not> usable_pval cols_i line_cols p \<Longrightarrow>
   try_except (read_pval cols_i line_cols) (Inr None) = Inr None"
  by (auto simp: usable_pval_def read_pval_def bind_res_def try_except_def split: sum.splits)

lemma read_columns_Inr:
  assumes "column cols_i line_cols ''rsID'' = Inr rsid" and "column cols_i line_cols ''Chr'' = Inr chrom"
    and "column cols_i line_cols ''BP'' = Inr bp" and "column cols_i line_cols ''EA'' = Inr ea"
    and "column cols_i line_cols ''OA'' = Inr oa" and "column cols_i line_cols ''EAF'' = Inr af"
    and "column cols_i line_cols ''SE'' = Inr se" and "column cols_i line_cols ''beta'' = Inr es"
  shows "read_columns cols_i line_cols = Inr (rsid, chrom, bp, ea, oa, af, se, es)"
  using assms by (simp add: read_columns_def bind_res_def)

lemma read_columns_Inl:
  assumes "name \<in> set [''rsID'', ''Chr'', ''BP'', ''EA'', ''OA'', ''EAF'', ''SE'', ''beta'']"
    and "column cols_i line_cols name = Inl e"
  shows "\<exists>e'. read_columns cols_i line_cols = Inl e'"
  using assms by (auto simp: read_columns_def bind_res_def split: sum.splits)

text \<open>
  C8. \<open>check_row\<close> returns a p-value, a verdict and a list of flags for every list of
  fields and every column map, and never raises; what it returns is fixed by the field
  values. A row without a usable p-value is classified \<open>MISSING_P_VALUE\<close>, with no p-value
  and no flag. A row with a usable p-value and a column that cannot be read is
  \<open>INVALID_ENTRY\<close> with the row flag alone. In a row with a usable p-value and all eight
  columns, each malformed field value sets its own flag and no other, the row flag stays
  unset, and the verdict is \<open>INVALID_ENTRY\<close> when some field is malformed and \<open>GOOD_ENTRY\<close>
  otherwise.
\<close>

theorem check_row_degrades:
  "\<exists>pval verdict issues.
     check_row cols_i line_cols = Inr (pval, verdict, issues) \<and>
     ((\<forall>p. \<not> usable_pval cols_i line_cols p) \<longrightarrow>
        pval = None \<and> verdict = MISSING_P_VALUE \<and> issues = replicate 9 False) \<and>
     (\<forall>p name e.
        usable_pval cols_i line_cols p \<and>
        name \<in> set [''rsID'', ''Chr'', ''BP'', ''EA'', ''OA'', ''EAF'', ''SE'', ''beta''] \<and>
        column cols_i line_cols name = Inl e \<longrightarrow>
        pval = Some p \<and> verdict = INVALID_ENTRY \<and>
        issues = [True, False, False, False, False, False, False, False, False]) \<and>
     (\<forall>p rsid chrom bp ea oa af se es.
        usable_pval cols_i line_cols p \<and>
        column cols_i line_cols ''rsID'' = Inr rsid \<and> column cols_i line_cols ''Chr'' = Inr chrom \<and>
        column cols_i line_cols ''BP'' = Inr bp \<and> column cols_i line_cols ''EA'' = Inr ea \<and>
        column cols_i line_cols ''OA'' = Inr oa \<and> column cols_i line_cols ''EAF'' = Inr af \<and>
        column cols_i line_cols ''SE'' = Inr se \<and> column cols_i line_cols ''beta'' = Inr es \<longrightarrow>
        pval = Some p \<and>
        issues = [False, bad_rsid rsid, bad_chrom chrom, bad_bp bp, bad_allele ea, bad_allele oa,
                  bad_eaf af, bad_float se, bad_float es] \<and>
        verdict = (if bad_rsid rsid \<or> bad_chrom chrom \<or> bad_bp bp \<or> bad_allele ea \<or>
                      bad_allele oa \<or> bad_eaf af \<or> bad_float se \<or> bad_float es
                   then INVALID_ENTRY else GOOD_ENTRY))"
proof -
  from check_row_total obtain pval verdict issues where
    eq: "check_row cols_i line_cols = Inr (pval, verdict, issues)"
    by blast
  have A: "pval = None \<and> verdict = MISSING_P_VALUE \<and> issues = replicate 9 False"
    if "\<forall>p. \<not> usable_pval cols_i line_cols p"
  proof -
    from that have "try_except (read_pval cols_i line_cols) (Inr None) = Inr None"
      by (rule read_pval_unusable)
    then have "check_row cols_i line_cols = Inr (None, MISSING_P_VALUE, replicate 9 False)"
      by (rule check_row_missing)
    with eq show ?thesis by simp
  qed
  have B: "pval = Some p \<and> verdict = INVALID_ENTRY \<and>
      issues = [True, False, False, False, False, False, False, False, False]"
    if "usable_pval cols_i line_cols p"
      and "name \<in> set [''rsID'', ''Chr'', ''BP'', ''EA'', ''OA'', ''EAF'', ''SE'', ''beta'']"
      and "column cols_i line_cols name = Inl e"
    for p name e
  proof -
    from read_columns_Inl [OF that(2,3)] obtain e' where
      "read_columns cols_i line_cols = Inl e'" by blast
    with read_pval_usable [OF that(1)] have "check_row cols_i line_cols =
        Inr (Some p, INVALID_ENTRY, (replicate 9 False)[INVALID_ROW := True])"
      by (rule check_row_malformed)
    with eq show ?thesis by (simp add: nine_False INVALID_ROW_def)
  qed
  have C: "pval = Some p \<and>
      issues = [False, bad_rsid rsid, bad_chrom chrom, bad_bp bp, bad_allele ea, bad_allele oa,
                bad_eaf af, bad_float se, bad_float es] \<and>
      verdict = (if bad_rsid rsid \<or> bad_chrom chrom \<or> bad_bp bp \<or> bad_allele ea \<or>
                    bad_allele oa \<or> bad_eaf af \<or> bad_float se \<or> bad_float es
                 then INVALID_ENTRY else GOOD_ENTRY)"
    if "usable_pval cols_i line_cols p"
      and "column cols_i line_cols ''rsID'' = Inr rsid" "column cols_i line_cols ''Chr'' = Inr chrom"
      "column cols_i line_cols ''BP'' = Inr bp" "column cols_i line_cols ''EA'' = Inr ea"
      "column cols_i line_cols ''OA'' = Inr oa" "column cols_i line_cols ''EAF'' = Inr af"
      "column cols_i line_cols ''SE'' = Inr se" "column cols_i line_cols ''beta'' = Inr es"
    for p rsid chrom bp ea oa af se es
  proof -
    let ?issues = "[False, bad_rsid rsid, bad_chrom chrom, bad_bp bp, bad_allele ea,
      bad_allele oa, bad_eaf af, bad_float se, bad_float es]"
    have rc: "read_columns cols_i line_cols = Inr (rsid, chrom, bp, ea, oa, af, se, es)"
      using that(2-9) by (rule read_columns_Inr)
    from check_row_checked [OF read_pval_usable [OF that(1)] rc] obtain iss where
      "check_fields (rsid, chrom, bp, ea, oa, af, se, es) (replicate 9 False) = Inr iss"
      "check_row cols_i line_cols =
         Inr (Some p, if list_ex id iss then INVALID_ENTRY else GOOD_ENTRY, iss)"
      by blast
    then have "check_row cols_i line_cols =
        Inr (Some p, if list_ex id ?issues then INVALID_ENTRY else GOOD_ENTRY, ?issues)"
      by (simp add: check_fields_exact)
    then have "Inr (pval, verdict, issues) =
        (Inr (Some p, if list_ex id ?issues then INVALID_ENTRY else GOOD_ENTRY, ?issues)
          :: (pyfloat option \<times> int \<times> bool list) res)"
      unfolding eq .
    then have "pval = Some p" "issues = ?issues"
      "verdict = (if list_ex id ?issues then INVALID_ENTRY else GOOD_ENTRY)"
      by (simp_all only: sum.inject prod.inject)
    moreover have "list_ex id ?issues = (bad_rsid rsid \<or> bad_chrom chrom \<or> bad_bp bp \<or>
        bad_allele ea \<or> bad_allele oa \<or> bad_eaf af \<or> bad_float se \<or> bad_float es)"
      by simp
    ultimately show ?thesis by (simp only: simp_thms)
  qed
  have body: "check_row cols_i line_cols = Inr (pval, verdict, issues) \<and>
     ((\<forall>p. \<not> usable_pval cols_i line_cols p) \<longrightarrow>
        pval = None \<and> verdict = MISSING_P_VALUE \<and> issues = replicate 9 False) \<and>
     (\<forall>p name e.
        usable_pval cols_i line_cols p \<and>
        name \<in> set [''rsID'', ''Chr'', ''BP'', ''EA'', ''OA'', ''EAF'', ''SE'', ''beta''] \<and>
        column cols_i line_cols name = Inl e \<longrightarrow>
        pval = Some p \<and> verdict = INVALID_ENTRY \<and>
        issues = [True, False, False, False, False, False, False, False, False]) \<and>
     (\<forall>p rsid chrom bp ea oa af se es.
        usable_pval cols_i line_cols p \<and>
        column cols_i line_cols ''rsID'' = Inr rsid \<and> column cols_i line_cols ''Chr'' = Inr chrom \<and>
        column cols_i line_cols ''BP'' = Inr bp \<and> column cols_i line_cols ''EA'' = Inr ea \<and>
        column cols_i line_cols ''OA'' = Inr oa \<and> column cols_i line_cols ''EAF'' = Inr af \<and>
        column cols_i line_cols ''SE'' = Inr se \<and> column cols_i line_cols ''beta'' = Inr es \<longrightarrow>
        pval = Some p \<and>
        issues = [False, bad_rsid rsid, bad_chrom chrom, bad_bp bp, bad_allele ea, bad_allele oa,
                  bad_eaf af, bad_float se, bad_float es] \<and>
        verdict = (if bad_rsid rsid \<or> bad_chrom chrom \<or> bad_bp bp \<or> bad_allele ea \<or>
                      bad_allele oa \<or> bad_eaf af \<or> bad_float se \<or> bad_float es
                   then INVALID_ENTRY else GOOD_ENTRY))"
    apply (rule conjI, rule eq)
    apply (rule conjI, rule impI, erule A)
    apply (rule conjI)
     apply (intro allI impI, elim conjE, rule B, assumption+)
    apply (intro allI impI, elim conjE, rule C, assumption+)
    done
  show ?thesis
    apply (rule exI [of _ pval])
    apply (rule exI [of _ verdict])
    apply (rule exI [of _ issues])
    apply (rule body)
    done
qed

text \<open>
  A row with a null p-value, a row with a p-value only under a map without the other
  columns, and a full row with five malformed fields.
\<close>

theorem check_row_degrades_witness:
  "check_row [''pval'' \<mapsto> 0] [''NA''] = Inr (None, MISSING_P_VALUE, replicate 9 False) \<and>
   check_row [''pval'' \<mapsto> 0] [''1''] =
     Inr (Some (Finite 1), INVALID_ENTRY,
          [True, False, False, False, False, False, False, False, False]) \<and>
   check_row standard_cols_i
     [''abc7'', ''inf'', ''rs123x'', ''AR'', ''G'', ''1.5'', ''0.01'', ''NA'', ''1''] =
     Inr (Some (Finite 1), INVALID_ENTRY,
          [False, True, False, True, False, True, True, True, False])"
proof -
  let ?c = "[''pval'' \<mapsto> (0::int)]"
  let ?r = "[''abc7'', ''inf'', ''rs123x'', ''AR'', ''G'', ''1.5'', ''0.01'', ''NA'', ''1'']"
  have one: "\<not> is_null ''1''" "py_float ''1'' = Inr (Finite 1)" "in_unit_interval (Finite 1)"
    by code_simp+
  have na: "is_null ''NA''"
    by code_simp
  have c1: "column ?c [''NA''] ''pval'' = Inr ''NA''" "column ?c [''1''] ''pval'' = Inr ''1''"
    "column ?c [''1''] ''rsID'' = Inl KeyError"
    by code_simp+
  have c3: "column standard_cols_i ?r ''pval'' = Inr ''1''"
    "column standard_cols_i ?r ''rsID'' = Inr ''rs123x''"
    "column standard_cols_i ?r ''Chr'' = Inr ''abc7''"
    "column standard_cols_i ?r ''BP'' = Inr ''inf''"
    "column standard_cols_i ?r ''EA'' = Inr ''G''"
    "column standard_cols_i ?r ''OA'' = Inr ''AR''"
    "column standard_cols_i ?r ''EAF'' = Inr ''1.5''"
    "column standard_cols_i ?r ''SE'' = Inr ''NA''"
    "column standard_cols_i ?r ''beta'' = Inr ''0.01''"
    by code_simp+
  have bad: "bad_rsid ''rs123x''" "\<not> bad_chrom ''abc7''" "bad_bp ''inf''" "\<not> bad_allele ''G''"
    "bad_allele ''AR''" "bad_eaf ''1.5''" "bad_float ''NA''" "\<not> bad_float ''0.01''"
    by code_simp+
  have u1: "\<forall>p. \<not> usable_pval ?c [''NA''] p"
    by (simp add: usable_pval_def c1 na)
  have u2: "usable_pval ?c [''1''] (Finite 1)"
    by (simp add: usable_pval_def c1 one)
  have u3: "usable_pval standard_cols_i ?r (Finite 1)"
    by (simp add: usable_pval_def c3 one)
  from check_row_degrades [of ?c "[''NA'']"] obtain p1 v1 i1 where
    "check_row ?c [''NA''] = Inr (p1, v1, i1)"
    "(\<forall>p. \<not> usable_pval ?c [''NA''] p) \<longrightarrow>
       p1 = None \<and> v1 = MISSING_P_VALUE \<and> i1 = replicate 9 False"
    by blast
  with u1 have 1: "check_row ?c [''NA''] = Inr (None, MISSING_P_VALUE, replicate 9 False)"
    by simp
  from check_row_degrades [of ?c "[''1'']"] obtain p2 v2 i2 where
    "check_row ?c [''1''] = Inr (p2, v2, i2)"
    "\<forall>p name e. usable_pval ?c [''1''] p \<and>
       name \<in> set [''rsID'', ''Chr'', ''BP'', ''EA'', ''OA'', ''EAF'', ''SE'', ''beta''] \<and>
       column ?c [''1''] name = Inl e \<longrightarrow>
       p2 = Some p \<and> v2 = INVALID_ENTRY \<and>
       i2 = [True, False, False, False, False, False, False, False, False]"
    by blast
  with u2 c1(3) have 2: "check_row ?c [''1''] =
      Inr (Some (Finite 1), INVALID_ENTRY,
           [True, False, False, False, False, False, False, False, False])"
    by fastforce
  from check_row_degrades [of standard_cols_i ?r] obtain p3 v3 i3 where
    e3: "check_row standard_cols_i ?r = Inr (p3, v3, i3)" and
    a3: "\<forall>p rsid chrom bp ea oa af se es.
        usable_pval standard_cols_i ?r p \<and>
        column standard_cols_i ?r ''rsID'' = Inr rsid \<and> column standard_cols_i ?r ''Chr'' = Inr chrom \<and>
        column standard_cols_i ?r ''BP'' = Inr bp \<and> column standard_cols_i ?r ''EA'' = Inr ea \<and>
        column standard_cols_i ?r ''OA'' = Inr oa \<and> column standard_cols_i ?r ''EAF'' = Inr af \<and>
        column standard_cols_i ?r ''SE'' = Inr se \<and> column standard_cols_i ?r ''beta'' = Inr es \<longrightarrow>
        p3 = Some p \<and>
        i3 = [False, bad_rsid rsid, bad_chrom chrom, bad_bp bp, bad_allele ea, bad_allele oa,
                  bad_eaf af, bad_float se, bad_float es] \<and>
        v3 = (if bad_rsid rsid \<or> bad_chrom chrom \<or> bad_bp bp \<or> bad_allele ea \<or>
                      bad_allele oa \<or> bad_eaf af \<or> bad_float se \<or> bad_float es
                   then INVALID_ENTRY else GOOD_ENTRY)"
    by blast
  from a3 [rule_format, of "Finite 1" "''rs123x''" "''abc7''" "''inf''" "''G''" "''AR''"
      "''1.5''" "''NA''" "''0.01''"] u3 c3
  have "p3 = Some (Finite 1) \<and>
        i3 = [False, bad_rsid ''rs123x'', bad_chrom ''abc7'', bad_bp ''inf'', bad_allele ''G'',
          bad_allele ''AR'', bad_eaf ''1.5'', bad_float ''NA'', bad_float ''0.01''] \<and>
        v3 = (if bad_rsid ''rs123x'' \<or> bad_chrom ''abc7'' \<or> bad_bp ''inf'' \<or> bad_allele ''G'' \<or>
                      bad_allele ''AR'' \<or> bad_eaf ''1.5'' \<or> bad_float ''NA'' \<or> bad_float ''0.01''
                   then INVALID_ENTRY else GOOD_ENTRY)"
    by blast
  with e3 bad have 3: "check_row standard_cols_i ?r =
     Inr (Some (Finite 1), INVALID_ENTRY,
          [False, True, False, True, False, True, True, True, False])"
    by simp
  from 1 2 3 show ?thesis by blast
qed

text \<open>
  C5. When the column map has no \<open>pval\<close> entry, or its index is out of range for the
  row, or the field is null-like, or \<open>float\<close> raises on it, or its value is not within
  0 and 1 (a NaN is not), \<open>check_row\<close> returns no p-value, the verdict
  \<open>MISSING_P_VALUE\<close> and nine flags that are all false. No other field is read: any
  other row with the same result of the \<open>pval\<close> lookup gets the same result, whatever
  its other fields and its length are.
\<close>

theorem missing_pval_first:
  assumes "cols_i ''pval'' = None \<or>
     (\<exists>i. cols_i ''pval'' = Some i \<and>
        (\<not> (- int (length line_cols) \<le> i \<and> i < int (length line_cols)) \<or>
         (\<exists>pval. getitem line_cols i = Inr pval \<and>
            (is_null pval \<or> (\<exists>e. py_float pval = Inl e) \<or>
             (\<exists>x. py_float pval = Inr x \<and> \<not> in_unit_interval x)))))"
  shows "check_row cols_i line_cols = Inr (None, MISSING_P_VALUE, replicate 9 False) \<and>
     (\<forall>other. column cols_i other ''pval'' = column cols_i line_cols ''pval'' \<longrightarrow>
        check_row cols_i other = check_row cols_i line_cols)"
proof -
  have m: "try_except (read_pval cols_i line_cols) (Inr None) = Inr None"
    using assms by (rule column_pval_unusable)
  have "try_except (read_pval cols_i other) (Inr None) = Inr None"
    if "column cols_i other ''pval'' = column cols_i line_cols ''pval''" for other
    using m that by (simp add: read_pval_def)
  with m show ?thesis
    by (simp add: check_row_missing)
qed

theorem missing_pval_first_witness:
  "check_row standard_cols_i
     [''chr7'', ''10500'', ''rs123'', ''A'', ''G'', ''0.3'', ''0.01'', ''0.02'', ''NA'']
   = Inr (None, MISSING_P_VALUE, replicate 9 False) \<and>
   check_row standard_cols_i [''chr7'', ''10500'']
   = Inr (None, MISSING_P_VALUE, replicate 9 False) \<and>
   check_row standard_cols_i
     [''chr7'', ''10500'', ''rs123'', ''A'', ''G'', ''0.3'', ''0.01'', ''0.02'', ''1.5'']
   = Inr (None, MISSING_P_VALUE, replicate 9 False) \<and>
   check_row standard_cols_i
     [''chr7'', ''10500'', ''rs123'', ''A'', ''G'', ''0.3'', ''0.01'', ''0.02'', ''0.04x'']
   = Inr (None, MISSING_P_VALUE, replicate 9 False)"
proof -
  have k: "standard_cols_i ''pval'' = Some 8"
    by (simp add: standard_cols_i_def)
  have 1: "getitem [''chr7'', ''10500'', ''rs123'', ''A'', ''G'', ''0.3'', ''0.01'', ''0.02'', ''NA''] 8
      = Inr ''NA''" "is_null ''NA''"
    by code_simp+
  have 3: "getitem [''chr7'', ''10500'', ''rs123'', ''A'', ''G'', ''0.3'', ''0.01'', ''0.02'', ''1.5''] 8
      = Inr ''1.5''" "py_float ''1.5'' = Inr (Finite (3 / 2))" "\<not> in_unit_interval (Finite (3 / 2))"
    by code_simp+
  have 4: "getitem [''chr7'', ''10500'', ''rs123'', ''A'', ''G'', ''0.3'', ''0.01'', ''0.02'', ''0.04x''] 8
      = Inr ''0.04x''" "py_float ''0.04x'' = Inl ValueError"
    by code_simp+
  show ?thesis
    using missing_pval_first [of standard_cols_i
        "[''chr7'', ''10500'', ''rs123'', ''A'', ''G'', ''0.3'', ''0.01'', ''0.02'', ''NA'']"]
      missing_pval_first [of standard_cols_i "[''chr7'', ''10500'']"]
      missing_pval_first [of standard_cols_i
        "[''chr7'', ''10500'', ''rs123'', ''A'', ''G'', ''0.3'', ''0.01'', ''0.02'', ''1.5'']"]
      missing_pval_first [of standard_cols_i
        "[''chr7'', ''10500'', ''rs123'', ''A'', ''G'', ''0.3'', ''0.01'', ''0.02'', ''0.04x'']"]
      k 1 3 4
    by simp
qed

text \<open>
  C9. Every row gets one of the three verdicts and nine flags. With the verdict
  \<open>GOOD_ENTRY\<close> all nine flags are false, with \<open>INVALID_ENTRY\<close> one of them at least
  is true, and with \<open>MISSING_P_VALUE\<close> the p-value is \<open>None\<close>.
\<close>

theorem check_row_verdict:
  "\<exists>pval verdict issues.
     check_row cols_i line_cols = Inr (pval, verdict, issues) \<and>
     (verdict = GOOD_ENTRY \<or> verdict = MISSING_P_VALUE \<or> verdict = INVALID_ENTRY) \<and>
     length issues = 9 \<and>
     (verdict = GOOD_ENTRY \<longrightarrow> issues = replicate 9 False) \<and>
     (verdict = INVALID_ENTRY \<longrightarrow> True \<in> set issues) \<and>
     (verdict = MISSING_P_VALUE \<longrightarrow> pval = None)"
proof -
  have d: "GOOD_ENTRY \<noteq> MISSING_P_VALUE" "GOOD_ENTRY \<noteq> INVALID_ENTRY"
    "MISSING_P_VALUE \<noteq> INVALID_ENTRY"
    by (simp_all add: GOOD_ENTRY_def MISSING_P_VALUE_def INVALID_ENTRY_def)
  consider "try_except (read_pval cols_i line_cols) (Inr None) = Inr None"
    | p where "read_pval cols_i line_cols = Inr (Some p)"
    using read_pval_cases by blast
  then show ?thesis
  proof cases
    case 1
    then show ?thesis using d by (simp add: check_row_missing)
  next
    case (2 p)
    show ?thesis
    proof (cases "read_columns cols_i line_cols")
      case (Inl e)
      have "True \<in> set ((replicate 9 False)[INVALID_ROW := True])"
        by (rule set_update_memI) (simp add: INVALID_ROW_def)
      with Inl 2 d show ?thesis
        by (simp add: check_row_malformed)
    next
      case (Inr flds)
      from check_row_checked [OF 2 Inr] obtain issues where
        i: "length issues = 9"
          "check_row cols_i line_cols =
             Inr (Some p, if list_ex id issues then INVALID_ENTRY else GOOD_ENTRY, issues)"
        by auto
      have "issues = replicate 9 False" if "\<not> list_ex id issues"
        using that i(1) by (auto simp: list_ex_iff intro!: replicate_eqI)
      moreover have "True \<in> set issues" if "list_ex id issues"
        using that by (auto simp: list_ex_iff)
      ultimately show ?thesis using i d by auto
    qed
  qed
qed

theorem check_row_verdict_witness:
  "check_row standard_cols_i
     [''chr7'', ''10500'', ''rs123'', ''A'', ''G'', ''0.3'', ''0.01'', ''0.02'', ''0.04'']
   = Inr (Some (round_binary64 (4 / 100)), GOOD_ENTRY, replicate 9 False) \<and>
   check_row standard_cols_i
     [''chr7'', ''-5'', ''rs123'', ''A'', ''G'', ''0.3'', ''0.01'', ''0.02'', ''0.04'']
   = Inr (Some (round_binary64 (4 / 100)), INVALID_ENTRY,
          [False, False, False, True, False, False, False, False, False]) \<and>
   check_row standard_cols_i
     [''chr7'', ''-5'', ''rs123'', ''A'', ''G'', ''0.3'', ''0.01'', ''0.02'', ''-'']
   = Inr (None, MISSING_P_VALUE, replicate 9 False)"
proof -
  let ?g = "[''chr7'', ''10500'', ''rs123'', ''A'', ''G'', ''0.3'', ''0.01'', ''0.02'', ''0.04'']"
  let ?i = "[''chr7'', ''-5'', ''rs123'', ''A'', ''G'', ''0.3'', ''0.01'', ''0.02'', ''0.04'']"
  let ?m = "[''chr7'', ''-5'', ''rs123'', ''A'', ''G'', ''0.3'', ''0.01'', ''0.02'', ''-'']"
  have g: "fst (projr (check_row standard_cols_i ?g)) = Some (round_binary64 (4 / 100))"
    "fst (snd (projr (check_row standard_cols_i ?g))) = GOOD_ENTRY"
    by code_simp+
  have i: "check_row standard_cols_i ?i = Inr (Some (round_binary64 (4 / 100)), INVALID_ENTRY,
          [False, False, False, True, False, False, False, False, False])"
    by code_simp
  have m: "fst (snd (projr (check_row standard_cols_i ?m))) = MISSING_P_VALUE"
    "snd (snd (projr (check_row standard_cols_i ?m))) = replicate 9 False"
    by code_simp+
  have v: "GOOD_ENTRY \<noteq> MISSING_P_VALUE" "GOOD_ENTRY \<noteq> INVALID_ENTRY"
    "MISSING_P_VALUE \<noteq> INVALID_ENTRY"
    by (simp_all add: GOOD_ENTRY_def MISSING_P_VALUE_def INVALID_ENTRY_def)
  from check_row_verdict [of standard_cols_i ?g] obtain pg vg ig where
    G: "check_row standard_cols_i ?g = Inr (pg, vg, ig)"
      "vg = GOOD_ENTRY \<longrightarrow> ig = replicate 9 False"
    by blast
  from G g have 1: "check_row standard_cols_i ?g =
      Inr (Some (round_binary64 (4 / 100)), GOOD_ENTRY, replicate 9 False)"
    by simp
  from check_row_verdict [of standard_cols_i ?m] obtain pm vm im where
    M: "check_row standard_cols_i ?m = Inr (pm, vm, im)"
      "vm = MISSING_P_VALUE \<longrightarrow> pm = None"
    by blast
  from M m have 3: "check_row standard_cols_i ?m = Inr (None, MISSING_P_VALUE, replicate 9 False)"
    by simp
  from 1 i 3 show ?thesis by blast
qed

text \<open>
  C4 (as the code has it). For a row that reaches the per-field checks, the flag
  \<open>INVALID_CHR\<close> is false exactly when the \<open>Chr\<close> field is in \<open>CATEGORY_CHR\<close>, or is
  in it once its first three characters, whatever they are, are dropped; otherwise the
  flag is true.
\<close>

theorem chromosome_flag:
  assumes "read_pval cols_i line_cols = Inr (Some p)"
    and "read_columns cols_i line_cols = Inr (rsid, chrom, bp, ea, oa, af, se, es)"
  shows "\<exists>verdict issues.
     check_row cols_i line_cols = Inr (Some p, verdict, issues) \<and>
     issues ! INVALID_CHR = (\<not> (chrom \<in> set CATEGORY_CHR \<or> drop 3 chrom \<in> set CATEGORY_CHR))"
proof -
  from check_row_checked [OF assms] obtain issues where
    i: "check_fields (rsid, chrom, bp, ea, oa, af, se, es) (replicate 9 False) = Inr issues"
      "check_row cols_i line_cols =
         Inr (Some p, if list_ex id issues then INVALID_ENTRY else GOOD_ENTRY, issues)"
    by auto
  from check_fields_Inr [of "replicate 9 False" "(rsid, chrom, bp, ea, oa, af, se, es)"] i(1)
  have "issues ! INVALID_CHR =
      (\<not> (chrom \<in> set CATEGORY_CHR \<or> drop 3 chrom \<in> set CATEGORY_CHR))"
    by (auto simp: INVALID_CHR_def)
  with i(2) show ?thesis by blast
qed

theorem chromosome_flag_witness:
  "\<exists>verdict issues.
     check_row standard_cols_i
       [''chr7'', ''10500'', ''rs123'', ''A'', ''G'', ''0.3'', ''0.01'', ''0.02'', ''0.04'']
       = Inr (Some (round_binary64 (4 / 100)), verdict, issues) \<and>
     issues ! INVALID_CHR = False"
proof -
  let ?row = "[''chr7'', ''10500'', ''rs123'', ''A'', ''G'', ''0.3'', ''0.01'', ''0.02'', ''0.04'']"
  have 1: "read_pval standard_cols_i ?row = Inr (Some (round_binary64 (4 / 100)))"
    by code_simp
  have 2: "read_columns standard_cols_i ?row =
      Inr (''rs123'', ''chr7'', ''10500'', ''G'', ''A'', ''0.3'', ''0.02'', ''0.01'')"
    by code_simp
  have 3: "drop 3 ''chr7'' \<in> set CATEGORY_CHR"
    by code_simp
  from chromosome_flag [OF 1 2] 3 show ?thesis by simp
qed

text \<open>
  The three characters need not be \<open>chr\<close>: the field \<open>abc7\<close> is accepted, and the row is
  good, although it is not in the category list and has no \<open>chr\<close> prefix.
\<close>

theorem chromosome_prefix_counterexample:
  "check_row standard_cols_i
     [''abc7'', ''10500'', ''rs123'', ''A'', ''G'', ''0.3'', ''0.01'', ''0.02'', ''0.04'']
   = Inr (Some (round_binary64 (4 / 100)), GOOD_ENTRY, replicate 9 False) \<and>
   \<not> claimed_chr_ok ''abc7''"
  by code_simp

text \<open>
  C1 (as the code has it). Under the standard column map the first three columns are
  \<open>Chr\<close>, \<open>BP\<close>, \<open>rsID\<close>. The row with its fields in that order is good, with the p-value
  0.04 (the binary64 nearest to it) and no flag set. The row of the specification has
  them in the order \<open>rsID\<close>, \<open>Chr\<close>, \<open>BP\<close>: its verdict is \<open>INVALID_ENTRY\<close>, with the flags
  of the rsID (\<open>10500\<close>) and of the base-pair position (\<open>chr7\<close>) set, while \<open>rs123\<close>
  passes as a chromosome because \<open>23\<close> is left when three characters are dropped.
\<close>

theorem example_row_reordered:
  "check_row standard_cols_i
     [''chr7'', ''10500'', ''rs123'', ''A'', ''G'', ''0.3'', ''0.01'', ''0.02'', ''0.04'']
   = Inr (Some (round_binary64 (4 / 100)), GOOD_ENTRY, replicate 9 False) \<and>
   round_binary64 (4 / 100) = Finite (5764607523034235 / 2 ^ 57) \<and>
   check_row standard_cols_i
     [''rs123'', ''chr7'', ''10500'', ''A'', ''G'', ''0.3'', ''0.01'', ''0.02'', ''0.04'']
   = Inr (Some (round_binary64 (4 / 100)), INVALID_ENTRY,
          [False, True, False, True, False, False, False, False, False])"
  by code_simp

text \<open>The row as the specification gives it is not classified good.\<close>

theorem example_row_counterexample:
  "check_row standard_cols_i
     [''rs123'', ''chr7'', ''10500'', ''A'', ''G'', ''0.3'', ''0.01'', ''0.02'', ''0.04'']
   \<noteq> Inr (Some (round_binary64 (4 / 100)), GOOD_ENTRY, replicate 9 False)"
  by code_simp

section \<open>Properties of the bucket counts\<close>

lemma Max_ISSUES: "Max (set ISSUES) = 8"
  by (simp add: ISSUES_def issue_index_defs)

lemma init_counts_ok: "counts_ok (length ticks) (init_counts ticks)"
  by (simp add: counts_ok_def init_counts_def Max_ISSUES)

lemma find_bin_SomeD:
  "find_bin a line_i ticks j = Inr (Some k) \<Longrightarrow> line_i < length (SNPs_pval a) \<Longrightarrow>
   j \<le> k \<and> k < length ticks \<and> float_le (SNPs_pval a ! line_i) (ticks ! k) \<and>
   (\<forall>l. j \<le> l \<and> l < k \<longrightarrow> \<not> float_le (SNPs_pval a ! line_i) (ticks ! l))"
proof (induction a line_i ticks j rule: find_bin.induct)
  case (1 a line_i ticks j)
  show ?case
  proof (cases "j < length ticks \<and> \<not> float_le (SNPs_pval a ! line_i) (ticks ! j)")
    case True
    with "1.prems" have "find_bin a line_i ticks (Suc j) = Inr (Some k)"
      by (subst (asm) find_bin.simps) (simp add: bind_res_def nth_res_def)
    with "1.IH" [of "SNPs_pval a ! line_i"] True "1.prems"(2)
    have "Suc j \<le> k \<and> k < length ticks \<and> float_le (SNPs_pval a ! line_i) (ticks ! k) \<and>
       (\<forall>l. Suc j \<le> l \<and> l < k \<longrightarrow> \<not> float_le (SNPs_pval a ! line_i) (ticks ! l))"
      by simp
    with True show ?thesis
      by (auto simp: less_Suc_eq_le Suc_le_eq dest: le_neq_implies_less)
  next
    case False
    with "1.prems" show ?thesis
      by (subst (asm) find_bin.simps) (auto simp: bind_res_def nth_res_def split: if_splits)
  qed
qed

lemma find_bin_NoneD:
  "find_bin a line_i ticks j = Inr None \<Longrightarrow> line_i < length (SNPs_pval a) \<Longrightarrow>
   \<forall>l. j \<le> l \<and> l < length ticks \<longrightarrow> \<not> float_le (SNPs_pval a ! line_i) (ticks ! l)"
proof (induction a line_i ticks j rule: find_bin.induct)
  case (1 a line_i ticks j)
  show ?case
  proof (cases "j < length ticks")
    case True
    with "1.prems" have n: "\<not> float_le (SNPs_pval a ! line_i) (ticks ! j)"
      and "find_bin a line_i ticks (Suc j) = Inr None"
      by (subst (asm) find_bin.simps, simp add: bind_res_def nth_res_def split: if_splits)+
    with "1.IH" [of "SNPs_pval a ! line_i"] True "1.prems"(2)
    have "\<forall>l. Suc j \<le> l \<and> l < length ticks \<longrightarrow> \<not> float_le (SNPs_pval a ! line_i) (ticks ! l)"
      by simp
    with n show ?thesis
      by (auto simp: Suc_le_eq dest: le_neq_implies_less)
  next
    case False
    then show ?thesis by auto
  qed
qed

lemma find_bin_Inr:
  "line_i < length (SNPs_pval a) \<Longrightarrow> \<exists>r. find_bin a line_i ticks j = Inr r"
proof (induction a line_i ticks j rule: find_bin.induct)
  case (1 a line_i ticks j)
  then show ?case
    by (subst find_bin.simps) (auto simp: bind_res_def nth_res_def)
qed

lemma find_bin_first:
  assumes "line_i < length (SNPs_pval a)" and "first_bin (SNPs_pval a ! line_i) ticks j"
  shows "find_bin a line_i ticks 1 = Inr (Some j)"
proof -
  from find_bin_Inr [OF assms(1)] obtain r where r: "find_bin a line_i ticks 1 = Inr r"
    by blast
  show ?thesis
  proof (cases r)
    case None
    with r find_bin_NoneD [OF _ assms(1)] assms(2) show ?thesis
      by (auto simp: first_bin_def)
  next
    case (Some k)
    with r find_bin_SomeD [OF _ assms(1), of ticks 1 k] assms(2) have "k = j"
      by (auto simp: first_bin_def intro: linorder_cases [of k j])
    with r Some show ?thesis by simp
  qed
qed

lemma find_bin_none:
  assumes "line_i < length (SNPs_pval a)"
    and "\<forall>l. 1 \<le> l \<and> l < length ticks \<longrightarrow> \<not> float_le (SNPs_pval a ! line_i) (ticks ! l)"
  shows "find_bin a line_i ticks 1 = Inr None"
proof -
  from find_bin_Inr [OF assms(1)] obtain r where r: "find_bin a line_i ticks 1 = Inr r"
    by blast
  show ?thesis
  proof (cases r)
    case None
    with r show ?thesis by simp
  next
    case (Some k)
    with r find_bin_SomeD [OF _ assms(1), of ticks 1 k] assms(2) show ?thesis
      by auto
  qed
qed

lemma increment_Inr: "j < length xs \<Longrightarrow> increment xs j = Inr (xs[j := xs ! j + 1])"
  by (simp add: increment_def nth_res_def bind_res_def)

lemma add_flags_Inr:
  "j < length m \<Longrightarrow> length flags = length (m ! j) \<Longrightarrow>
   add_flags m j flags = Inr (m[j := add_row_flags (m ! j) flags])"
  by (simp add: add_flags_def nth_res_def bind_res_def)

lemma arrays_ok_nth:
  "arrays_ok a \<Longrightarrow> line_i < length (SNPs_report a) \<Longrightarrow>
   line_i < length (SNPs_pval a) \<and> line_i < length (SNPs_issues a) \<and>
   length (SNPs_issues a ! line_i) = 9"
  by (simp add: arrays_ok_def)

lemma count_row_missing:
  assumes "line_i < length (SNPs_report a)" and "counts_ok (length ticks) c" and "ticks \<noteq> []"
    and "SNPs_report a ! line_i = MISSING_P_VALUE"
  shows "count_row ticks a line_i c =
     Inr (c\<lparr>missing_pval_bins := (missing_pval_bins c)[0 := missing_pval_bins c ! 0 + 1]\<rparr>)"
  using assms
  by (simp add: count_row_def nth_res_def bind_res_def increment_Inr counts_ok_def)

lemma count_row_good:
  assumes "line_i < length (SNPs_report a)" and "arrays_ok a" and "counts_ok (length ticks) c"
    and "SNPs_report a ! line_i = GOOD_ENTRY"
    and "first_bin (SNPs_pval a ! line_i) ticks j"
  shows "count_row ticks a line_i c =
     Inr (c\<lparr>good_entry_bins := (good_entry_bins c)[j := good_entry_bins c ! j + 1]\<rparr>)"
proof -
  from assms(1,2) have "line_i < length (SNPs_pval a)" by (simp add: arrays_ok_def)
  from find_bin_first [OF this assms(5)] assms show ?thesis
    by (simp add: count_row_def nth_res_def bind_res_def increment_Inr counts_ok_def
        first_bin_def GOOD_ENTRY_def MISSING_P_VALUE_def)
qed

lemma count_row_invalid:
  assumes "line_i < length (SNPs_report a)" and "arrays_ok a" and "counts_ok (length ticks) c"
    and "SNPs_report a ! line_i = INVALID_ENTRY"
    and "first_bin (SNPs_pval a ! line_i) ticks j"
  shows "count_row ticks a line_i c =
     Inr (c\<lparr>invalid_entry_bins := (invalid_entry_bins c)[j := invalid_entry_bins c ! j + 1],
            invalid_entry_bins_reason_bins :=
              (invalid_entry_bins_reason_bins c)
                [j := add_row_flags (invalid_entry_bins_reason_bins c ! j)
                        (SNPs_issues a ! line_i)]\<rparr>)"
proof -
  from arrays_ok_nth [OF assms(2,1)] have l: "line_i < length (SNPs_pval a)"
    "line_i < length (SNPs_issues a)" "length (SNPs_issues a ! line_i) = 9"
    by simp_all
  from assms(3,5) have j: "j < length (invalid_entry_bins c)"
    "j < length (invalid_entry_bins_reason_bins c)"
    "length (invalid_entry_bins_reason_bins c ! j) = 9"
    by (auto simp: counts_ok_def first_bin_def)
  from find_bin_first [OF l(1) assms(5)] assms(1,4) l j show ?thesis
    by (simp add: count_row_def nth_res_def bind_res_def increment_Inr add_flags_Inr
        GOOD_ENTRY_def MISSING_P_VALUE_def INVALID_ENTRY_def)
qed

lemma count_row_dropped:
  assumes "line_i < length (SNPs_report a)" and "arrays_ok a"
    and "SNPs_report a ! line_i = GOOD_ENTRY \<or> SNPs_report a ! line_i = INVALID_ENTRY"
    and "\<forall>l. 1 \<le> l \<and> l < length ticks \<longrightarrow> \<not> float_le (SNPs_pval a ! line_i) (ticks ! l)"
  shows "count_row ticks a line_i c = Inr c"
proof -
  from assms(1,2) have "line_i < length (SNPs_pval a)" by (simp add: arrays_ok_def)
  from find_bin_none [OF this assms(4)] assms(1,3) show ?thesis
    by (auto simp: count_row_def nth_res_def bind_res_def
        GOOD_ENTRY_def MISSING_P_VALUE_def INVALID_ENTRY_def)
qed

lemma count_row_other:
  assumes "line_i < length (SNPs_report a)"
    and "SNPs_report a ! line_i \<noteq> MISSING_P_VALUE" and "SNPs_report a ! line_i \<noteq> GOOD_ENTRY"
    and "SNPs_report a ! line_i \<noteq> INVALID_ENTRY"
  shows "count_row ticks a line_i c = Inr c"
  using assms by (simp add: count_row_def nth_res_def bind_res_def)

lemma first_bin_cases:
  "(\<exists>j. first_bin p ticks j) \<or> (\<forall>l. 1 \<le> l \<and> l < length ticks \<longrightarrow> \<not> float_le p (ticks ! l))"
proof (cases "\<exists>l. 1 \<le> l \<and> l < length ticks \<and> float_le p (ticks ! l)")
  case True
  then obtain l where l: "1 \<le> l \<and> l < length ticks \<and> float_le p (ticks ! l)" by blast
  define j where "j = (LEAST l. 1 \<le> l \<and> l < length ticks \<and> float_le p (ticks ! l))"
  from l have "1 \<le> j \<and> j < length ticks \<and> float_le p (ticks ! j)"
    unfolding j_def by (rule LeastI)
  moreover have "\<not> float_le p (ticks ! k)" if "1 \<le> k" "k < j" for k
  proof
    assume "float_le p (ticks ! k)"
    with that calculation have "1 \<le> k \<and> k < length ticks \<and> float_le p (ticks ! k)" by simp
    then have "j \<le> k" unfolding j_def by (rule Least_le)
    with that show False by simp
  qed
  ultimately have "first_bin p ticks j" by (simp add: first_bin_def)
  then show ?thesis by blast
next
  case False
  then show ?thesis by blast
qed

lemma for_res_invariant:
  assumes "I s"
    and "\<And>x s. x \<in> set xs \<Longrightarrow> I s \<Longrightarrow> \<exists>s'. body x s = Inr s' \<and> I s'"
  shows "\<exists>s'. for_res body xs s = Inr s' \<and> I s'"
  using assms
proof (induction xs arbitrary: s)
  case Nil
  then show ?case by simp
next
  case (Cons x xs)
  from Cons.prems(2) [of x s] Cons.prems(1) obtain s1 where s1: "body x s = Inr s1" "I s1"
    by auto
  from Cons.IH [OF s1(2)] Cons.prems(2) obtain s' where "for_res body xs s1 = Inr s'" "I s'"
    by auto
  with s1 show ?case by (simp add: bind_res_def)
qed

lemma for_res_sum:
  assumes "I s"
    and "\<And>x s. x \<in> set xs \<Longrightarrow> I s \<Longrightarrow> \<exists>s'. body x s = Inr s' \<and> I s' \<and> f s' = f s + g x"
  shows "\<exists>s'. for_res body xs s = Inr s' \<and> I s' \<and> f s' = f s + sum_list (map g xs)"
  using assms
proof (induction xs arbitrary: s)
  case Nil
  then show ?case by simp
next
  case (Cons x xs)
  from Cons.prems(2) [of x s] Cons.prems(1) obtain s1 where
    s1: "body x s = Inr s1" "I s1" "f s1 = f s + g x"
    by auto
  from Cons.IH [OF s1(2)] Cons.prems(2) obtain s' where
    "for_res body xs s1 = Inr s'" "I s'" "f s' = f s1 + sum_list (map g xs)"
    by auto
  with s1 show ?case by (simp add: bind_res_def add.assoc)
qed

lemma sum_list_increment:
  "j < length xs \<Longrightarrow> sum_list (xs[j := xs ! j + 1]) = sum_list xs + (1::int)"
proof (induction xs arbitrary: j)
  case Nil
  then show ?case by simp
next
  case (Cons x xs)
  then show ?case by (cases j) simp_all
qed

lemma length_add_row_flags:
  "length flags = length row \<Longrightarrow> length (add_row_flags row flags) = length row"
  by (simp add: add_row_flags_def)

lemma counts_ok_update_reason:
  assumes "counts_ok n c" and "length row = 9"
  shows "counts_ok n (c\<lparr>invalid_entry_bins := (invalid_entry_bins c)[j := v],
           invalid_entry_bins_reason_bins := (invalid_entry_bins_reason_bins c)[j := row]\<rparr>)"
  using assms by (auto simp: counts_ok_def dest!: set_update_subset_insert [THEN subsetD])

lemma count_row_step:
  assumes "line_i < length (SNPs_report a)" and "arrays_ok a" and "ticks \<noteq> []"
    and "counts_ok (length ticks) c"
  shows "\<exists>c'. count_row ticks a line_i c = Inr c' \<and> counts_ok (length ticks) c' \<and>
     (bin0_clean (length ticks) c \<longrightarrow> bin0_clean (length ticks) c') \<and>
     counted c' = counted c + (if in_some_bin ticks a line_i then 1 else 0)"
proof -
  let ?r = "SNPs_report a ! line_i" and ?p = "SNPs_pval a ! line_i"
  have d: "GOOD_ENTRY \<noteq> MISSING_P_VALUE" "GOOD_ENTRY \<noteq> INVALID_ENTRY"
    "MISSING_P_VALUE \<noteq> INVALID_ENTRY"
    by (simp_all add: GOOD_ENTRY_def MISSING_P_VALUE_def INVALID_ENTRY_def)
  from assms(3,4) have l: "0 < length (missing_pval_bins c)" "0 < length (good_entry_bins c)"
    "0 < length (invalid_entry_bins c)"
    by (simp_all add: counts_ok_def)
  consider (missing) "?r = MISSING_P_VALUE"
    | (good) j where "?r = GOOD_ENTRY" "first_bin ?p ticks j"
    | (invalid) j where "?r = INVALID_ENTRY" "first_bin ?p ticks j"
    | (dropped) "?r = GOOD_ENTRY \<or> ?r = INVALID_ENTRY"
        "\<forall>l. 1 \<le> l \<and> l < length ticks \<longrightarrow> \<not> float_le ?p (ticks ! l)"
    | (other) "?r \<noteq> MISSING_P_VALUE" "?r \<noteq> GOOD_ENTRY" "?r \<noteq> INVALID_ENTRY"
    using first_bin_cases [of ?p ticks] by blast
  then show ?thesis
  proof cases
    case missing
    from count_row_missing [OF assms(1,4,3) missing] assms(4) l missing show ?thesis
      by (auto simp: counts_ok_def bin0_clean_def counted_def in_some_bin_def)
  next
    case (good j)
    then have j: "1 \<le> j" "j < length (good_entry_bins c)" "\<exists>j<length ticks. 1 \<le> j \<and> float_le ?p (ticks ! j)"
      using assms(4) by (auto simp: first_bin_def counts_ok_def)
    from count_row_good [OF assms(1,2,4) good] assms(4) j good(1) d show ?thesis
      by (auto simp: counts_ok_def bin0_clean_def counted_def in_some_bin_def sum_list_increment)
  next
    case (invalid j)
    then have j: "1 \<le> j" "j < length (invalid_entry_bins c)"
      "j < length (invalid_entry_bins_reason_bins c)"
      "\<exists>j<length ticks. 1 \<le> j \<and> float_le ?p (ticks ! j)"
      using assms(4) by (auto simp: first_bin_def counts_ok_def)
    from assms(4) j have "length (invalid_entry_bins_reason_bins c ! j) = 9"
      by (simp add: counts_ok_def)
    with arrays_ok_nth [OF assms(2,1)]
    have "length (add_row_flags (invalid_entry_bins_reason_bins c ! j) (SNPs_issues a ! line_i)) = 9"
      by (simp add: length_add_row_flags)
    from counts_ok_update_reason [OF assms(4) this]
      count_row_invalid [OF assms(1,2,4) invalid] j invalid(1) d show ?thesis
      by (auto simp: bin0_clean_def counted_def in_some_bin_def sum_list_increment)
  next
    case dropped
    from count_row_dropped [OF assms(1,2) dropped] assms(4) dropped d show ?thesis
      by (auto simp: in_some_bin_def)
  next
    case other
    from count_row_other [OF assms(1) other] assms(4) other show ?thesis
      by (auto simp: in_some_bin_def)
  qed
qed

lemma init_counts_clean: "ticks \<noteq> [] \<Longrightarrow> bin0_clean (length ticks) (init_counts ticks)"
  by (simp add: bin0_clean_def init_counts_def Max_ISSUES)

lemma counted_init: "ticks \<noteq> [] \<Longrightarrow> counted (init_counts ticks) = 0"
  by (simp add: counted_def init_counts_def sum_list_replicate)

lemma STEP2_result:
  assumes "arrays_ok a" and "ticks \<noteq> []"
  shows "\<exists>c. STEP2 ticks a = Inr c \<and> counts_ok (length ticks) c \<and>
     bin0_clean (length ticks) c \<and>
     counted c = (\<Sum>line_i \<leftarrow> [0..<length (SNPs_report a)].
                    if in_some_bin ticks a line_i then 1 else 0)"
proof -
  let ?I = "\<lambda>c. counts_ok (length ticks) c \<and> bin0_clean (length ticks) c"
  have "\<exists>c. for_res (count_row ticks a) [0..<length (SNPs_report a)] (init_counts ticks) = Inr c \<and>
      ?I c \<and> counted c = counted (init_counts ticks) +
        sum_list (map (\<lambda>line_i. if in_some_bin ticks a line_i then 1 else 0)
          [0..<length (SNPs_report a)])"
  proof (rule for_res_sum)
    show "?I (init_counts ticks)"
      using assms(2) by (simp add: init_counts_ok init_counts_clean)
  next
    fix x c
    assume "x \<in> set [0..<length (SNPs_report a)]" and "?I c"
    with count_row_step [of x a ticks c] assms
    show "\<exists>s'. count_row ticks a x c = Inr s' \<and> ?I s' \<and>
        counted s' = counted c + (if in_some_bin ticks a x then 1 else 0)"
      by auto
  qed
  with assms(2) show ?thesis
    by (simp add: STEP2_def counted_init)
qed

lemma float_eq_le: "float_eq x y \<Longrightarrow> float_le x y"
  by (cases x; cases y) auto

lemma float_lt_eq_not_le: "float_lt x y \<Longrightarrow> float_eq p y \<Longrightarrow> \<not> float_le p x"
  by (cases x; cases y; cases p) auto

lemma float_le_trans: "float_le x y \<Longrightarrow> float_le y z \<Longrightarrow> float_le x z"
  by (cases x; cases y; cases z) auto

lemma float_lt_le: "float_lt x y \<Longrightarrow> float_le x y"
  by (cases x; cases y) auto

lemma float_lt_not_le: "float_lt x y \<Longrightarrow> \<not> float_le y x"
  by (cases x; cases y) auto

lemma float_le_refl_lt: "float_lt x y \<Longrightarrow> float_le x x"
  by (cases x; cases y) auto

lemma first_bin_unique: "first_bin p ticks j \<Longrightarrow> first_bin p ticks j' \<Longrightarrow> j = j'"
  by (auto simp: first_bin_def intro: linorder_cases [of j j'])

lemma tie_first_bin:
  assumes "sorted_wrt float_lt ticks" and "1 \<le> j" and "j < length ticks"
    and "float_eq p (ticks ! j)"
  shows "first_bin p ticks j"
proof -
  have "\<not> float_le p (ticks ! k)" if "k < j" for k
  proof -
    from assms(1,3) that have "float_lt (ticks ! k) (ticks ! j)"
      by (simp add: sorted_wrt_iff_nth_less)
    then show ?thesis using assms(4) by (rule float_lt_eq_not_le)
  qed
  with assms(2,3) float_eq_le [OF assms(4)] show ?thesis
    by (simp add: first_bin_def)
qed

lemma above_last_no_bin:
  assumes "sorted_wrt float_lt ticks" and "ticks \<noteq> []" and "float_lt (last ticks) p"
  shows "\<forall>l. 1 \<le> l \<and> l < length ticks \<longrightarrow> \<not> float_le p (ticks ! l)"
proof (intro allI impI notI)
  fix l
  assume l: "1 \<le> l \<and> l < length ticks" and le: "float_le p (ticks ! l)"
  have "float_le (ticks ! l) (last ticks)"
  proof (cases "l = length ticks - 1")
    case True
    with assms(2) have "ticks ! l = last ticks" by (simp add: last_conv_nth)
    with float_le_refl_lt [OF assms(3)] show ?thesis by simp
  next
    case False
    with l have "l < length ticks - 1" by linarith
    with assms(1,2) have "float_lt (ticks ! l) (ticks ! (length ticks - 1))"
      by (simp add: sorted_wrt_iff_nth_less)
    with assms(2) show ?thesis by (simp add: last_conv_nth float_lt_le)
  qed
  with le have "float_le p (last ticks)" by (rule float_le_trans)
  with float_lt_not_le [OF assms(3)] show False by simp
qed

text \<open>
  C6. One pass of the loop body over a row, from any counts of the right shape. A good
  row whose first bucket is \<open>j\<close> adds one to the good count of \<open>j\<close> and changes
  nothing else; an invalid row adds one to the invalid count of \<open>j\<close> and its flags to row
  \<open>j\<close> of the matrix. The first bucket is unique, and for a p-value equal to tick \<open>j\<close> it
  is \<open>j\<close>, the bucket that ends there. A good or invalid row with a p-value above the
  last tick changes nothing. A row with the verdict \<open>MISSING_P_VALUE\<close> adds one to the
  missing count of bucket 0 and changes nothing else. The ticks are strictly ascending,
  as the script asserts before it starts.
\<close>

theorem bucket_assignment:
  assumes "line_i < length (SNPs_report a)" and "arrays_ok a" and "counts_ok (length ticks) c"
    and "ticks \<noteq> []" and "sorted_wrt float_lt ticks"
  shows
    "(SNPs_report a ! line_i = GOOD_ENTRY \<and> first_bin (SNPs_pval a ! line_i) ticks j \<longrightarrow>
        count_row ticks a line_i c =
          Inr (c\<lparr>good_entry_bins := (good_entry_bins c)[j := good_entry_bins c ! j + 1]\<rparr>)) \<and>
     (SNPs_report a ! line_i = INVALID_ENTRY \<and> first_bin (SNPs_pval a ! line_i) ticks j \<longrightarrow>
        count_row ticks a line_i c =
          Inr (c\<lparr>invalid_entry_bins := (invalid_entry_bins c)[j := invalid_entry_bins c ! j + 1],
                 invalid_entry_bins_reason_bins :=
                   (invalid_entry_bins_reason_bins c)
                     [j := add_row_flags (invalid_entry_bins_reason_bins c ! j)
                             (SNPs_issues a ! line_i)]\<rparr>)) \<and>
     (first_bin (SNPs_pval a ! line_i) ticks j \<and> first_bin (SNPs_pval a ! line_i) ticks j' \<longrightarrow>
        j = j') \<and>
     (1 \<le> j \<and> j < length ticks \<and> float_eq (SNPs_pval a ! line_i) (ticks ! j) \<longrightarrow>
        first_bin (SNPs_pval a ! line_i) ticks j) \<and>
     ((SNPs_report a ! line_i = GOOD_ENTRY \<or> SNPs_report a ! line_i = INVALID_ENTRY) \<and>
      float_lt (last ticks) (SNPs_pval a ! line_i) \<longrightarrow>
        count_row ticks a line_i c = Inr c) \<and>
     (SNPs_report a ! line_i = MISSING_P_VALUE \<longrightarrow>
        count_row ticks a line_i c =
          Inr (c\<lparr>missing_pval_bins := (missing_pval_bins c)[0 := missing_pval_bins c ! 0 + 1]\<rparr>))"
  using count_row_good [OF assms(1,2,3)] count_row_invalid [OF assms(1,2,3)]
    first_bin_unique [of "SNPs_pval a ! line_i" ticks j j'] tie_first_bin [OF assms(5)]
    count_row_dropped [OF assms(1,2) _ above_last_no_bin [OF assms(5,4)]]
    count_row_missing [OF assms(1,3,4)]
  by blast

theorem bucket_assignment_witness:
  "count_row [Finite 0, Finite (1 / 2), Finite 1]
     \<lparr>SNPs_pval = [Finite (1 / 2), NaN, Finite (3 / 4)],
      SNPs_report = [GOOD_ENTRY, MISSING_P_VALUE, INVALID_ENTRY],
      SNPs_issues = [replicate 9 False, replicate 9 False,
                     [False, True, False, False, False, False, False, False, False]]\<rparr>
     0 (init_counts [Finite 0, Finite (1 / 2), Finite 1])
   = Inr ((init_counts [Finite 0, Finite (1 / 2), Finite 1])\<lparr>good_entry_bins := [0, 1, 0]\<rparr>) \<and>
   count_row [Finite 0, Finite (1 / 2), Finite 1]
     \<lparr>SNPs_pval = [Finite (1 / 2), NaN, Finite (3 / 4)],
      SNPs_report = [GOOD_ENTRY, MISSING_P_VALUE, INVALID_ENTRY],
      SNPs_issues = [replicate 9 False, replicate 9 False,
                     [False, True, False, False, False, False, False, False, False]]\<rparr>
     1 (init_counts [Finite 0, Finite (1 / 2), Finite 1])
   = Inr ((init_counts [Finite 0, Finite (1 / 2), Finite 1])\<lparr>missing_pval_bins := [1, 0, 0]\<rparr>) \<and>
   count_row [Finite 0, Finite (1 / 2), Finite 1]
     \<lparr>SNPs_pval = [Finite (1 / 2), NaN, Finite (3 / 4)],
      SNPs_report = [GOOD_ENTRY, MISSING_P_VALUE, INVALID_ENTRY],
      SNPs_issues = [replicate 9 False, replicate 9 False,
                     [False, True, False, False, False, False, False, False, False]]\<rparr>
     2 (init_counts [Finite 0, Finite (1 / 2), Finite 1])
   = Inr ((init_counts [Finite 0, Finite (1 / 2), Finite 1])
            \<lparr>invalid_entry_bins := [0, 0, 1],
             invalid_entry_bins_reason_bins :=
               [replicate 9 0, replicate 9 0, [0, 1, 0, 0, 0, 0, 0, 0, 0]]\<rparr>) \<and>
   count_row [Finite 0, Finite (1 / 2)]
     \<lparr>SNPs_pval = [Finite (1 / 2), NaN, Finite (3 / 4)],
      SNPs_report = [GOOD_ENTRY, MISSING_P_VALUE, INVALID_ENTRY],
      SNPs_issues = [replicate 9 False, replicate 9 False,
                     [False, True, False, False, False, False, False, False, False]]\<rparr>
     2 (init_counts [Finite 0, Finite (1 / 2)])
   = Inr (init_counts [Finite 0, Finite (1 / 2)])"
proof -
  let ?t = "[Finite 0, Finite (1 / 2), Finite 1]"
  let ?u = "[Finite 0, Finite (1 / 2)]"
  let ?a = "\<lparr>SNPs_pval = [Finite (1 / 2), NaN, Finite (3 / 4)],
      SNPs_report = [GOOD_ENTRY, MISSING_P_VALUE, INVALID_ENTRY],
      SNPs_issues = [replicate 9 False, replicate 9 False,
                     [False, True, False, False, False, False, False, False, False]]\<rparr>"
  have v: "GOOD_ENTRY \<noteq> MISSING_P_VALUE" "GOOD_ENTRY \<noteq> INVALID_ENTRY"
    "MISSING_P_VALUE \<noteq> INVALID_ENTRY"
    by (simp_all add: GOOD_ENTRY_def MISSING_P_VALUE_def INVALID_ENTRY_def)
  have ok: "arrays_ok ?a" by (simp add: arrays_ok_def)
  have l: "0 < length (SNPs_report ?a)" "1 < length (SNPs_report ?a)"
    "2 < length (SNPs_report ?a)"
    by simp_all
  have t: "?t \<noteq> []" "sorted_wrt float_lt ?t" and u: "?u \<noteq> []" "sorted_wrt float_lt ?u"
    by simp_all
  have ct: "counts_ok (length ?t) (init_counts ?t)" and cu: "counts_ok (length ?u) (init_counts ?u)"
    by (rule init_counts_ok)+
  have fb: "first_bin (SNPs_pval ?a ! 2) ?t 2"
    by (auto simp: first_bin_def less_Suc_eq numeral_2_eq_2)
  have z: "init_counts ?t = \<lparr>missing_pval_bins = [0, 0, 0], good_entry_bins = [0, 0, 0],
      invalid_entry_bins = [0, 0, 0],
      invalid_entry_bins_reason_bins = [replicate 9 0, replicate 9 0, replicate 9 0]\<rparr>"
    by (simp add: init_counts_def Max_ISSUES numeral_3_eq_3)
  have good: "count_row ticks a line_i c =
      Inr (c\<lparr>good_entry_bins := (good_entry_bins c)[j := good_entry_bins c ! j + 1]\<rparr>)"
    if "line_i < length (SNPs_report a)" "arrays_ok a" "counts_ok (length ticks) c"
      "ticks \<noteq> []" "sorted_wrt float_lt ticks" "SNPs_report a ! line_i = GOOD_ENTRY"
      "1 \<le> j" "j < length ticks" "float_eq (SNPs_pval a ! line_i) (ticks ! j)"
    for ticks a line_i c j
    using bucket_assignment [OF that(1-5), of j j] that(6-9) by blast
  have invalid: "count_row ticks a line_i c =
      Inr (c\<lparr>invalid_entry_bins := (invalid_entry_bins c)[j := invalid_entry_bins c ! j + 1],
             invalid_entry_bins_reason_bins :=
               (invalid_entry_bins_reason_bins c)
                 [j := add_row_flags (invalid_entry_bins_reason_bins c ! j)
                         (SNPs_issues a ! line_i)]\<rparr>)"
    if "line_i < length (SNPs_report a)" "arrays_ok a" "counts_ok (length ticks) c"
      "ticks \<noteq> []" "sorted_wrt float_lt ticks" "SNPs_report a ! line_i = INVALID_ENTRY"
      "first_bin (SNPs_pval a ! line_i) ticks j"
    for ticks a line_i c j
    using bucket_assignment [OF that(1-5), of j j] that(6-7) by blast
  have missing: "count_row ticks a line_i c =
      Inr (c\<lparr>missing_pval_bins := (missing_pval_bins c)[0 := missing_pval_bins c ! 0 + 1]\<rparr>)"
    if "line_i < length (SNPs_report a)" "arrays_ok a" "counts_ok (length ticks) c"
      "ticks \<noteq> []" "sorted_wrt float_lt ticks" "SNPs_report a ! line_i = MISSING_P_VALUE"
    for ticks a line_i c
    using bucket_assignment [OF that(1-5), of 0 0] that(6) by blast
  have dropped: "count_row ticks a line_i c = Inr c"
    if "line_i < length (SNPs_report a)" "arrays_ok a" "counts_ok (length ticks) c"
      "ticks \<noteq> []" "sorted_wrt float_lt ticks" "SNPs_report a ! line_i = INVALID_ENTRY"
      "float_lt (last ticks) (SNPs_pval a ! line_i)"
    for ticks a line_i c
    using bucket_assignment [OF that(1-5), of 0 0] that(6-7) by blast
  have 1: "count_row ?t ?a 0 (init_counts ?t) =
      Inr ((init_counts ?t)\<lparr>good_entry_bins := [0, 1, 0]\<rparr>)"
    by (subst good [OF l(1) ok ct t, of 1]) (simp_all add: z)
  have 2: "count_row ?t ?a 1 (init_counts ?t) =
      Inr ((init_counts ?t)\<lparr>missing_pval_bins := [1, 0, 0]\<rparr>)"
    by (subst missing [OF l(2) ok ct t]) (simp_all add: z)
  have 3: "count_row ?t ?a 2 (init_counts ?t) =
      Inr ((init_counts ?t)\<lparr>invalid_entry_bins := [0, 0, 1],
             invalid_entry_bins_reason_bins :=
               [replicate 9 0, replicate 9 0, [0, 1, 0, 0, 0, 0, 0, 0, 0]]\<rparr>)"
    by (subst invalid [OF l(3) ok ct t _ fb]) (simp_all add: z add_row_flags_def numeral_eq_Suc)
  have 4: "count_row ?u ?a 2 (init_counts ?u) = Inr (init_counts ?u)"
    by (rule dropped [OF l(3) ok cu u]) simp_all
  from 1 2 3 4 show ?thesis by blast
qed

text \<open>
  C10. After step 2, over any arrays of step 1 and any ticks (one at least, as the
  assertions on the ticks demand), bucket 0 has no good and no invalid row and a zero row
  in the matrix, and no bucket from 1 on has a missing row.
\<close>

theorem bucket0_only_missing:
  assumes "arrays_ok a" and "ticks \<noteq> []"
  shows "\<exists>c. STEP2 ticks a = Inr c \<and>
     good_entry_bins c ! 0 = 0 \<and> invalid_entry_bins c ! 0 = 0 \<and>
     invalid_entry_bins_reason_bins c ! 0 = replicate 9 0 \<and>
     (\<forall>j. 1 \<le> j \<and> j < length ticks \<longrightarrow> missing_pval_bins c ! j = 0)"
  using STEP2_result [OF assms] by (auto simp: bin0_clean_def)

theorem bucket0_only_missing_witness:
  "STEP2 [Finite 0, Finite (1 / 2), Finite 1]
     \<lparr>SNPs_pval = [Finite (1 / 2), NaN, Finite (3 / 4)],
      SNPs_report = [GOOD_ENTRY, MISSING_P_VALUE, INVALID_ENTRY],
      SNPs_issues = [replicate 9 False, replicate 9 False,
                     [False, True, False, False, False, False, False, False, False]]\<rparr>
   = Inr \<lparr>missing_pval_bins = [1, 0, 0], good_entry_bins = [0, 1, 0],
          invalid_entry_bins = [0, 0, 1],
          invalid_entry_bins_reason_bins =
            [replicate 9 0, replicate 9 0, [0, 1, 0, 0, 0, 0, 0, 0, 0]]\<rparr>"
proof -
  let ?t = "[Finite 0, Finite (1 / 2), Finite 1]"
  let ?a = "\<lparr>SNPs_pval = [Finite (1 / 2), NaN, Finite (3 / 4)],
      SNPs_report = [GOOD_ENTRY, MISSING_P_VALUE, INVALID_ENTRY],
      SNPs_issues = [replicate 9 False, replicate 9 False,
                     [False, True, False, False, False, False, False, False, False]]\<rparr>"
  have ok: "arrays_ok ?a" by (simp add: arrays_ok_def)
  have ne: "?t \<noteq> []" by simp
  from bucket0_only_missing [OF ok ne] obtain c where c: "STEP2 ?t ?a = Inr c"
    by blast
  have "projr (STEP2 ?t ?a) = \<lparr>missing_pval_bins = [1, 0, 0], good_entry_bins = [0, 1, 0],
          invalid_entry_bins = [0, 0, 1],
          invalid_entry_bins_reason_bins =
            [replicate 9 0, replicate 9 0, [0, 1, 0, 0, 0, 0, 0, 0, 0]]\<rparr>"
    by code_simp
  with c show ?thesis by simp
qed

text \<open>
  C2 (as the code has it). With two ticks at least, when every row is missing, or good or
  invalid with a p-value not above the last tick, the good and invalid counts of all
  buckets and the missing count of bucket 0 add up to the number of rows. A good or
  invalid row with a p-value above the last tick is in no count.
\<close>

theorem counts_add_up:
  assumes "arrays_ok a" and "2 \<le> length ticks"
    and "\<forall>line_i<length (SNPs_report a).
           SNPs_report a ! line_i = MISSING_P_VALUE \<or>
           ((SNPs_report a ! line_i = GOOD_ENTRY \<or> SNPs_report a ! line_i = INVALID_ENTRY) \<and>
            float_le (SNPs_pval a ! line_i) (last ticks))"
  shows "\<exists>c. STEP2 ticks a = Inr c \<and>
     sum_list (good_entry_bins c) + sum_list (invalid_entry_bins c) + missing_pval_bins c ! 0
       = int (length (SNPs_report a))"
proof -
  from assms(2) have t: "ticks \<noteq> []" by auto
  from assms(2) t have last: "1 \<le> length ticks - 1" "length ticks - 1 < length ticks"
    "last ticks = ticks ! (length ticks - 1)"
    by (simp_all add: last_conv_nth)
  have "in_some_bin ticks a line_i" if "line_i < length (SNPs_report a)" for line_i
    using assms(3) that last unfolding in_some_bin_def by metis
  then have eq: "map (\<lambda>line_i. if in_some_bin ticks a line_i then 1 else 0)
      [0..<length (SNPs_report a)] = map (\<lambda>line_i. (1::int)) [0..<length (SNPs_report a)]"
    by simp
  have "(\<Sum>line_i \<leftarrow> [0..<length (SNPs_report a)].
      if in_some_bin ticks a line_i then 1 else 0) = int (length (SNPs_report a))"
    unfolding eq by (simp add: sum_list_triv)
  with STEP2_result [OF assms(1) t] show ?thesis
    by (auto simp: counted_def)
qed

theorem counts_add_up_witness:
  "\<exists>c. STEP2 [Finite 0, Finite (1 / 2), Finite 1]
     \<lparr>SNPs_pval = [Finite (1 / 2), NaN, Finite (3 / 4)],
      SNPs_report = [GOOD_ENTRY, MISSING_P_VALUE, INVALID_ENTRY],
      SNPs_issues = [replicate 9 False, replicate 9 False,
                     [False, True, False, False, False, False, False, False, False]]\<rparr>
     = Inr c \<and>
     sum_list (good_entry_bins c) + sum_list (invalid_entry_bins c) + missing_pval_bins c ! 0 = 3"
proof -
  let ?t = "[Finite 0, Finite (1 / 2), Finite 1]"
  let ?a = "\<lparr>SNPs_pval = [Finite (1 / 2), NaN, Finite (3 / 4)],
      SNPs_report = [GOOD_ENTRY, MISSING_P_VALUE, INVALID_ENTRY],
      SNPs_issues = [replicate 9 False, replicate 9 False,
                     [False, True, False, False, False, False, False, False, False]]\<rparr>"
  have ok: "arrays_ok ?a" by (simp add: arrays_ok_def)
  have two: "2 \<le> length ?t" by simp
  have rows: "\<forall>line_i<length (SNPs_report ?a).
           SNPs_report ?a ! line_i = MISSING_P_VALUE \<or>
           ((SNPs_report ?a ! line_i = GOOD_ENTRY \<or> SNPs_report ?a ! line_i = INVALID_ENTRY) \<and>
            float_le (SNPs_pval ?a ! line_i) (last ?t))"
    by (simp add: All_less_Suc numeral_3_eq_3)
  from counts_add_up [OF ok two rows] show ?thesis by simp
qed

text \<open>
  A good row with the p-value 0.75, which \<open>check_row\<close> gives for the field \<open>0.75\<close>, and
  the ticks 0 and 0.5, which are strictly ascending and within 0 and 1: the row is in no
  bucket, and the counts add up to 0 for one row.
\<close>

theorem counts_add_up_counterexample:
  "check_row standard_cols_i
     [''chr7'', ''10500'', ''rs123'', ''A'', ''G'', ''0.3'', ''0.01'', ''0.02'', ''0.75'']
   = Inr (Some (Finite (3 / 4)), GOOD_ENTRY, replicate 9 False) \<and>
   sorted_wrt float_lt [Finite 0, Finite (1 / 2)] \<and>
   float_le (Finite 0) (hd [Finite 0, Finite (1 / 2)]) \<and>
   float_le (last [Finite 0, Finite (1 / 2)]) (Finite 1) \<and>
   STEP2 [Finite 0, Finite (1 / 2)]
     \<lparr>SNPs_pval = [Finite (3 / 4)], SNPs_report = [GOOD_ENTRY],
      SNPs_issues = [replicate 9 False]\<rparr>
   = Inr \<lparr>missing_pval_bins = [0, 0], good_entry_bins = [0, 0], invalid_entry_bins = [0, 0],
          invalid_entry_bins_reason_bins = [replicate 9 0, replicate 9 0]\<rparr> \<and>
   sum_list [0, 0] + sum_list [0, 0] + [0, 0] ! 0 \<noteq> int (length [GOOD_ENTRY])"
  by code_simp

section \<open>Properties of the classification pass\<close>






















section \<open>Properties of the bar widths\<close>

lemma foldl_append_each:
  "foldl (\<lambda>ws i. if c i then ws @ [f i] else ws @ [g i]) ws0 is =
     ws0 @ map (\<lambda>i. if c i then f i else g i) is"
  by (induction "is" arbitrary: ws0) simp_all

lemma bars_widths_log10_eq:
  "bars_widths np_log10 ''log10'' ticks =
     Inr (Finite 1 # map (\<lambda>i. if float_eq (ticks ! (i - 1)) (Finite 0) then Finite 2
            else float_div (float_sub (np_log10 (ticks ! i)) (np_log10 (ticks ! (i - 1))))
                   (float_sub (np_log10 (Finite 1)) (np_log10 (round_binary64 (1 / 100)))))
          [1 ..< length ticks])"
  by (simp add: bars_widths_def Let_def foldl_append_each)

lemma round_small:
  "round_binary64 1 = Finite 1" "round_binary64 2 = Finite 2"
  by code_simp+

lemma ticks_not_zero:
  "\<not> float_eq (round_binary64 (1 / 10 ^ 5)) (Finite 0)"
  by code_simp

text \<open>
  C7. Under the rule \<open>log10\<close> there is one width for each tick (one width for no tick).
  The first is 1. The width at \<open>i \<ge> 1\<close> is 2 when tick \<open>i - 1\<close> equals zero, and
  otherwise the binary64 quotient of \<open>log10(tick[i]) - log10(tick[i-1])\<close> by
  \<open>log10(1) - log10(1e-2)\<close>. For the adjacent ticks \<open>1e-5\<close> and \<open>1e-3\<close> the width is
  exactly 1 when \<open>log10\<close> gives \<open>0\<close>, \<open>-2\<close>, \<open>-3\<close> and \<open>-5\<close> at \<open>1\<close>, \<open>1e-2\<close>, \<open>1e-3\<close> and
  \<open>1e-5\<close>.
\<close>

theorem bars_widths_log10:
  "\<exists>ws. bars_widths np_log10 ''log10'' ticks = Inr ws \<and>
     length ws = max 1 (length ticks) \<and>
     ws ! 0 = Finite 1 \<and>
     (\<forall>i. 1 \<le> i \<and> i < length ticks \<longrightarrow>
        ws ! i =
          (if float_eq (ticks ! (i - 1)) (Finite 0) then Finite 2
           else float_div (float_sub (np_log10 (ticks ! i)) (np_log10 (ticks ! (i - 1))))
                  (float_sub (np_log10 (Finite 1)) (np_log10 (round_binary64 (1 / 100)))))) \<and>
     (\<forall>i. 1 \<le> i \<and> i < length ticks \<and>
        ticks ! (i - 1) = round_binary64 (1 / 10 ^ 5) \<and> ticks ! i = round_binary64 (1 / 10 ^ 3) \<and>
        np_log10 (Finite 1) = Finite 0 \<and>
        np_log10 (round_binary64 (1 / 100)) = Finite (- 2) \<and>
        np_log10 (round_binary64 (1 / 10 ^ 3)) = Finite (- 3) \<and>
        np_log10 (round_binary64 (1 / 10 ^ 5)) = Finite (- 5) \<longrightarrow>
        ws ! i = Finite 1)"
proof -
  let ?w = "\<lambda>i. if float_eq (ticks ! (i - 1)) (Finite 0) then Finite 2
            else float_div (float_sub (np_log10 (ticks ! i)) (np_log10 (ticks ! (i - 1))))
                   (float_sub (np_log10 (Finite 1)) (np_log10 (round_binary64 (1 / 100))))"
  let ?ws = "Finite 1 # map ?w [1 ..< length ticks]"
  have eq: "bars_widths np_log10 ''log10'' ticks = Inr ?ws"
    by (rule bars_widths_log10_eq)
  have len: "length ?ws = max 1 (length ticks)"
    by auto
  have nth: "?ws ! i = ?w i" if "1 \<le> i" "i < length ticks" for i
  proof -
    from that obtain j where i: "i = Suc j" by (cases i) auto
    with that have "j < length [1 ..< length ticks]" by simp
    then have "map ?w [1 ..< length ticks] ! j = ?w ([1 ..< length ticks] ! j)"
      by (rule nth_map)
    also from that i have "[1 ..< length ticks] ! j = i" by simp
    finally show ?thesis by (simp add: i)
  qed
  have one: "?ws ! i = Finite 1"
    if "1 \<le> i" "i < length ticks"
      "ticks ! (i - 1) = round_binary64 (1 / 10 ^ 5)" "ticks ! i = round_binary64 (1 / 10 ^ 3)"
      "np_log10 (Finite 1) = Finite 0" "np_log10 (round_binary64 (1 / 100)) = Finite (- 2)"
      "np_log10 (round_binary64 (1 / 10 ^ 3)) = Finite (- 3)"
      "np_log10 (round_binary64 (1 / 10 ^ 5)) = Finite (- 5)" for i
  proof -
    have "?w i = float_div (float_sub (Finite (- 3)) (Finite (- 5)))
        (float_sub (Finite 0) (Finite (- 2)))"
      using that(3-8) ticks_not_zero by simp
    also have "\<dots> = Finite 1"
      by (simp add: round_small)
    finally show ?thesis using nth [OF that(1,2)] by simp
  qed
  show ?thesis
    apply (rule exI [of _ ?ws])
    apply (rule conjI, rule eq)
    apply (rule conjI, rule len)
    apply (rule conjI, simp)
    apply (rule conjI)
     apply (intro allI impI, elim conjE, rule nth, assumption+)
    apply (intro allI impI, elim conjE, rule one, assumption+)
    done
qed

text \<open>
  The first four ticks of the script, with a \<open>log10\<close> that is exact at the powers of ten:
  the widths are 1, 2, 1.5 and 1.
\<close>

theorem bars_widths_log10_witness:
  "bars_widths
     (\<lambda>x. if x = Finite 1 then Finite 0
          else if x = round_binary64 (1 / 100) then Finite (- 2)
          else if x = round_binary64 (1 / 10 ^ 3) then Finite (- 3)
          else if x = round_binary64 (1 / 10 ^ 5) then Finite (- 5)
          else if x = round_binary64 (1 / 10 ^ 8) then Finite (- 8)
          else NaN)
     ''log10''
     [Finite 0, round_binary64 (1 / 10 ^ 8), round_binary64 (1 / 10 ^ 5),
      round_binary64 (1 / 10 ^ 3)]
   = Inr [Finite 1, Finite 2, Finite (3 / 2), Finite 1]"
proof -
  let ?L = "\<lambda>x. if x = Finite 1 then Finite 0
          else if x = round_binary64 (1 / 100) then Finite (- 2)
          else if x = round_binary64 (1 / 10 ^ 3) then Finite (- 3)
          else if x = round_binary64 (1 / 10 ^ 5) then Finite (- 5)
          else if x = round_binary64 (1 / 10 ^ 8) then Finite (- 8)
          else NaN"
  let ?T = "[Finite 0, round_binary64 (1 / 10 ^ 8), round_binary64 (1 / 10 ^ 5),
      round_binary64 (1 / 10 ^ 3)]"
  have L: "?L (Finite 1) = Finite 0" "?L (round_binary64 (1 / 100)) = Finite (- 2)"
    "?L (round_binary64 (1 / 10 ^ 3)) = Finite (- 3)"
    "?L (round_binary64 (1 / 10 ^ 5)) = Finite (- 5)"
    "?L (round_binary64 (1 / 10 ^ 8)) = Finite (- 8)"
    by code_simp+
  have z: "float_eq (Finite 0) (Finite 0)" "\<not> float_eq (round_binary64 (1 / 10 ^ 8)) (Finite 0)"
    by code_simp+
  have q: "float_div (float_sub (Finite (- 5)) (Finite (- 8)))
      (float_sub (Finite 0) (Finite (- 2))) = Finite (3 / 2)"
    by code_simp
  from bars_widths_log10 [of ?L ?T] obtain ws where
    eq: "bars_widths ?L ''log10'' ?T = Inr ws" and
    len: "length ws = max 1 (length ?T)" and
    w0: "ws ! 0 = Finite 1" and
    w: "\<forall>i. 1 \<le> i \<and> i < length ?T \<longrightarrow>
        ws ! i =
          (if float_eq (?T ! (i - 1)) (Finite 0) then Finite 2
           else float_div (float_sub (?L (?T ! i)) (?L (?T ! (i - 1))))
                  (float_sub (?L (Finite 1)) (?L (round_binary64 (1 / 100)))))" and
    o: "\<forall>i. 1 \<le> i \<and> i < length ?T \<and>
        ?T ! (i - 1) = round_binary64 (1 / 10 ^ 5) \<and> ?T ! i = round_binary64 (1 / 10 ^ 3) \<and>
        ?L (Finite 1) = Finite 0 \<and>
        ?L (round_binary64 (1 / 100)) = Finite (- 2) \<and>
        ?L (round_binary64 (1 / 10 ^ 3)) = Finite (- 3) \<and>
        ?L (round_binary64 (1 / 10 ^ 5)) = Finite (- 5) \<longrightarrow>
        ws ! i = Finite 1"
    by blast
  from w [rule_format, of 1] z have w1: "ws ! 1 = Finite 2"
    by (simp only: nth_Cons_0 nth_Cons_Suc One_nat_def diff_Suc_Suc diff_zero if_True) simp
  from w [rule_format, of 2] have "ws ! 2 =
      (if float_eq (round_binary64 (1 / 10 ^ 8)) (Finite 0) then Finite 2
       else float_div (float_sub (?L (round_binary64 (1 / 10 ^ 5))) (?L (round_binary64 (1 / 10 ^ 8))))
              (float_sub (?L (Finite 1)) (?L (round_binary64 (1 / 100)))))"
    by (simp add: numeral_2_eq_2)
  then have w2: "ws ! 2 = Finite (3 / 2)"
    unfolding L using z(2) q by simp
  have t: "1 \<le> (3::nat)" "3 < length ?T" "?T ! (3 - 1) = round_binary64 (1 / 10 ^ 5)"
    "?T ! 3 = round_binary64 (1 / 10 ^ 3)"
    by (simp_all add: numeral_3_eq_3)
  have "ws ! 3 = Finite 1"
    by (rule o [rule_format, of 3]) (intro conjI t L)
  with len w0 w1 w2 have "ws = [Finite 1, Finite 2, Finite (3 / 2), Finite 1]"
    by (auto simp: list_eq_iff_nth_eq less_Suc_eq numeral_3_eq_3 numeral_2_eq_2)
  with eq show ?thesis by simp
qed

end
